theory Spec2Isabelle
  imports Complex_Main
begin

section \<open>Conventions\<close>

text \<open>
  A shallow embedding of the market-data ingestion service: the transport client
  (\<^verbatim>\<open>createClient\<close>), the message router (\<^verbatim>\<open>processMessage\<close>), the subscription
  manager and the batching database module (\<^verbatim>\<open>src/db/index.ts\<close>).

  JavaScript numbers are modelled as \<^typ>\<open>real\<close>: the arithmetic of the modelled code
  (\<^verbatim>\<open>Math.abs\<close>, \<^verbatim>\<open>Math.min\<close>, \<^verbatim>\<open>Math.pow\<close>, comparison) is read over the reals, without
  NaN, infinities or rounding. Module-level variables become fields of a state record
  that every function takes and returns.
\<close>

section \<open>Transport client: reconnect backoff\<close>







section \<open>Configuration\<close>

text \<open>
  \<^verbatim>\<open>config.app\<close> is read by the router and by the database module; the configuration
  module itself is not among the modelled sources, so its values are parameters.
\<close>

record app_config =
  indexPrefix :: string
  batchSize :: nat
  batchInterval :: nat

section \<open>The store behind the connection pool\<close>

text \<open>
  The database is an external collaborator, modelled by its query contract.
  \<^item> \<open>topics\<close> and \<open>ltp_data\<close> are the durable tables (\<^verbatim>\<open>received_at\<close>, set by the
    server with \<^verbatim>\<open>NOW()\<close>, is left out).
  \<^item> \<open>next_topic_id\<close> is the sequence behind the generated \<^verbatim>\<open>topic_id\<close>.
  \<^item> \<open>unique_topic_name\<close> says whether the schema (not among the modelled sources)
    puts a uniqueness constraint on \<^verbatim>\<open>topics.topic_name\<close>.
  \<^item> \<open>tx\<close> is the open transaction of the checked-out client, with the rows it has
    written and not yet committed.
  \<^item> \<open>faults\<close> scripts the failures of the environment: every statement sent to the
    store draws the next flag, and fails when it is \<open>True\<close>.
  \<^item> \<open>qlog\<close> records every statement the store received, in order, each with the
    flag it drew.
\<close>

record topic_row =
  topic_id :: nat
  topic_name :: string
  index_name :: "string option"
  row_type :: "string option"
  row_strike :: "real option"

datatype query =
    QConnect
  | QBegin
  | QCommit
  | QRollback
  | QSelectAllTopics
  | QSelectTopic string
  | QInsertTopic string
  | QInsertLtp "(nat \<times> real) list"

record store =
  topics :: "topic_row list"
  ltp_data :: "(nat \<times> real) list"
  next_topic_id :: nat
  unique_topic_name :: bool
  tx :: "(nat \<times> real) list option"
  faults :: "bool list"
  qlog :: "(query \<times> bool) list"

text \<open>Receiving a statement: log it and draw its fault flag.\<close>

definition receive :: "query \<Rightarrow> store \<Rightarrow> bool \<times> store" where
  "receive q st =
     (case faults st of
        [] \<Rightarrow> (False, st\<lparr>qlog := qlog st @ [(q, False)]\<rparr>)
      | f # fs \<Rightarrow> (f, st\<lparr>faults := fs, qlog := qlog st @ [(q, f)]\<rparr>))"

text \<open>\<^verbatim>\<open>pool.connect()\<close>: \<open>True\<close> when a client was checked out.\<close>

definition pool_connect :: "store \<Rightarrow> bool \<times> store" where
  "pool_connect st = (let (f, st1) = receive QConnect st in (\<not> f, st1))"

text \<open>\<^verbatim>\<open>SELECT topic_id, topic_name FROM topics\<close>; \<open>None\<close> is a rejected query.\<close>

definition select_all_topics :: "store \<Rightarrow> topic_row list option \<times> store" where
  "select_all_topics st =
     (let (f, st1) = receive QSelectAllTopics st
      in if f then (None, st1) else (Some (topics st1), st1))"

text \<open>\<^verbatim>\<open>SELECT topic_id FROM topics WHERE topic_name = $1\<close>.\<close>

definition select_topic :: "string \<Rightarrow> store \<Rightarrow> topic_row list option \<times> store" where
  "select_topic nm st =
     (let (f, st1) = receive (QSelectTopic nm) st
      in if f then (None, st1)
         else (Some (filter (\<lambda>r. topic_name r = nm) (topics st1)), st1))"

text \<open>
  \<^verbatim>\<open>INSERT INTO topics (...) VALUES ($1, $2, $3, $4) RETURNING topic_id\<close>, sent through
  the pool and therefore committed on its own. With a uniqueness constraint the store
  rejects a second row of the same name.
\<close>

definition insert_topic ::
  "string \<Rightarrow> string option \<Rightarrow> string option \<Rightarrow> real option \<Rightarrow> store \<Rightarrow> nat option \<times> store"
where
  "insert_topic nm iname ty sk st =
     (let (f, st1) = receive (QInsertTopic nm) st
      in if f then (None, st1)
         else if unique_topic_name st1 \<and> (\<exists>r \<in> set (topics st1). topic_name r = nm)
         then (None, st1)
         else (Some (next_topic_id st1),
               st1\<lparr>topics := topics st1 @
                      [\<lparr>topic_id = next_topic_id st1, topic_name = nm, index_name = iname,
                        row_type = ty, row_strike = sk\<rparr>],
                    next_topic_id := next_topic_id st1 + 1\<rparr>))"

text \<open>
  The statements of the transaction client. \<^verbatim>\<open>BEGIN\<close> opens a transaction (and
  continues one that is open); an \<^verbatim>\<open>INSERT\<close> inside it is pending until
  \<^verbatim>\<open>COMMIT\<close>, and durable at once when no transaction is open; a \<^verbatim>\<open>COMMIT\<close> that
  fails leaves nothing durable and ends the transaction; \<^verbatim>\<open>ROLLBACK\<close> discards the
  pending rows.
\<close>

definition tx_begin :: "store \<Rightarrow> bool \<times> store" where
  "tx_begin st =
     (let (f, st1) = receive QBegin st
      in if f then (False, st1)
         else (True, st1\<lparr>tx := Some (case tx st1 of None \<Rightarrow> [] | Some p \<Rightarrow> p)\<rparr>))"

definition tx_insert_ltp :: "(nat \<times> real) list \<Rightarrow> store \<Rightarrow> bool \<times> store" where
  "tx_insert_ltp rows st =
     (let (f, st1) = receive (QInsertLtp rows) st
      in if f then (False, st1)
         else (case tx st1 of
                 None \<Rightarrow> (True, st1\<lparr>ltp_data := ltp_data st1 @ rows\<rparr>)
               | Some p \<Rightarrow> (True, st1\<lparr>tx := Some (p @ rows)\<rparr>)))"

definition tx_commit :: "store \<Rightarrow> bool \<times> store" where
  "tx_commit st =
     (let (f, st1) = receive QCommit st
      in if f then (False, st1\<lparr>tx := None\<rparr>)
         else (True, st1\<lparr>ltp_data := ltp_data st1 @ (case tx st1 of None \<Rightarrow> [] | Some p \<Rightarrow> p),
                         tx := None\<rparr>))"

definition tx_rollback :: "store \<Rightarrow> bool \<times> store" where
  "tx_rollback st =
     (let (f, st1) = receive QRollback st
      in if f then (False, st1) else (True, st1\<lparr>tx := None\<rparr>))"

text \<open>No uncommitted observation is pending on the client.\<close>

definition no_pending :: "store \<Rightarrow> bool" where
  "no_pending st = (tx st = None \<or> tx st = Some [])"

section \<open>Database module: state\<close>

text \<open>
  \<^verbatim>\<open>interface BatchItem\<close>, and the module variables \<^verbatim>\<open>dataBatch\<close>, \<^verbatim>\<open>batchTimer\<close>
  (\<open>True\<close> when a timeout handle is held, \<open>False\<close> for \<^verbatim>\<open>null\<close>) and \<^verbatim>\<open>topicCache\<close>.
  The fourth field of a batch item is \<^verbatim>\<open>type\<close> in the source.
\<close>

record BatchItem =
  topic :: string
  ltp :: real
  indexName :: "string option"
  itype :: "string option"
  strike :: "real option"

record db_module =
  dataBatch :: "BatchItem list"
  batchTimer :: bool
  topicCache :: "string \<rightharpoonup> nat"

text \<open>Errors of the store are opaque to the module: it logs and rethrows them.\<close>

datatype db_error = DbError

section \<open>Database module: \<^verbatim>\<open>initialize\<close> and \<^verbatim>\<open>getTopicId\<close>\<close>

text \<open>
  \<^verbatim>\<open>initialize\<close> loads every row of \<^verbatim>\<open>topics\<close> into the cache, a later row of the
  same name over an earlier one; a rejected query is rethrown.
\<close>

definition initialize :: "db_module \<Rightarrow> store \<Rightarrow> (db_error + unit) \<times> db_module \<times> store" where
  "initialize m st =
     (case select_all_topics st of
        (None, st1) \<Rightarrow> (Inl DbError, m, st1)
      | (Some rows, st1) \<Rightarrow>
          (Inr (),
           m\<lparr>topicCache := foldl (\<lambda>c r. c(topic_name r \<mapsto> topic_id r)) (topicCache m) rows\<rparr>,
           st1))"

text \<open>
  \<^verbatim>\<open>getTopicId\<close> run from call to return with nothing else in between: cache, then
  \<^verbatim>\<open>SELECT\<close>, then \<^verbatim>\<open>INSERT\<close>; every error is rethrown.
\<close>

definition getTopicId ::
  "string \<Rightarrow> string option \<Rightarrow> string option \<Rightarrow> real option \<Rightarrow> db_module \<Rightarrow> store
     \<Rightarrow> (db_error + nat) \<times> db_module \<times> store"
where
  "getTopicId nm iname ty sk m st =
     (case topicCache m nm of
        Some i \<Rightarrow> (Inr i, m, st)
      | None \<Rightarrow>
          (case select_topic nm st of
             (None, st1) \<Rightarrow> (Inl DbError, m, st1)
           | (Some (r # rs), st1) \<Rightarrow>
               (Inr (topic_id r), m\<lparr>topicCache := (topicCache m)(nm \<mapsto> topic_id r)\<rparr>, st1)
           | (Some [], st1) \<Rightarrow>
               (case insert_topic nm iname ty sk st1 of
                  (None, st2) \<Rightarrow> (Inl DbError, m, st2)
                | (Some newTopicId, st2) \<Rightarrow>
                    (Inr newTopicId, m\<lparr>topicCache := (topicCache m)(nm \<mapsto> newTopicId)\<rparr>, st2))))"

text \<open>
  The same function as the event loop runs it. A call is suspended at each \<^verbatim>\<open>await\<close>,
  and other calls may run in between: \<open>Pending\<close> is a call not yet started,
  \<open>AwaitSelect\<close> and \<open>AwaitInsert\<close> are calls whose query has been issued and not
  yet answered. One step runs a call from one suspension point to the next.
\<close>

datatype call_state =
    Pending
  | AwaitSelect
  | AwaitInsert
  | Returned nat
  | Thrown db_error

type_synonym call = "string \<times> string option \<times> string option \<times> real option"

fun call_step ::
  "call \<Rightarrow> call_state \<Rightarrow> db_module \<Rightarrow> store \<Rightarrow> call_state \<times> db_module \<times> store"
where
  "call_step (nm, iname, ty, sk) Pending m st =
     (case topicCache m nm of
        Some i \<Rightarrow> (Returned i, m, st)
      | None \<Rightarrow> (AwaitSelect, m, st))"
| "call_step (nm, iname, ty, sk) AwaitSelect m st =
     (case select_topic nm st of
        (None, st1) \<Rightarrow> (Thrown DbError, m, st1)
      | (Some (r # rs), st1) \<Rightarrow>
          (Returned (topic_id r), m\<lparr>topicCache := (topicCache m)(nm \<mapsto> topic_id r)\<rparr>, st1)
      | (Some [], st1) \<Rightarrow> (AwaitInsert, m, st1))"
| "call_step (nm, iname, ty, sk) AwaitInsert m st =
     (case insert_topic nm iname ty sk st of
        (None, st2) \<Rightarrow> (Thrown DbError, m, st2)
      | (Some newTopicId, st2) \<Rightarrow>
          (Returned newTopicId, m\<lparr>topicCache := (topicCache m)(nm \<mapsto> newTopicId)\<rparr>, st2))"
| "call_step c (Returned i) m st = (Returned i, m, st)"
| "call_step c (Thrown e) m st = (Thrown e, m, st)"

text \<open>
  A schedule names, step by step, the call that runs next. \<open>run_schedule\<close> runs the
  calls \<open>cs\<close>, whose states are \<open>pcs\<close>, along a schedule.
\<close>

fun run_schedule ::
  "call list \<Rightarrow> nat list \<Rightarrow> call_state list \<times> db_module \<times> store
     \<Rightarrow> call_state list \<times> db_module \<times> store"
where
  "run_schedule cs [] w = w"
| "run_schedule cs (i # sched) (pcs, m, st) =
     (if i < length cs \<and> i < length pcs
      then (case call_step (cs ! i) (pcs ! i) m st of
              (pc, m1, st1) \<Rightarrow> run_schedule cs sched (pcs[i := pc], m1, st1))
      else run_schedule cs sched (pcs, m, st))"

section \<open>Database module: \<^verbatim>\<open>saveToDatabase\<close> and \<^verbatim>\<open>flushBatch\<close>\<close>

text \<open>
  \<^verbatim>\<open>flushBatch\<close> is an \<^verbatim>\<open>async\<close> function. The part before its first \<^verbatim>\<open>await\<close> runs
  inside the caller: it clears the timer, returns at once on an empty batch, and
  otherwise copies the batch and resets \<^verbatim>\<open>dataBatch\<close>. \<open>flushBatch_start\<close> is that part;
  its result says whether the call went on to write, and which snapshot.
\<close>

datatype flush_start = Skipped | Started "BatchItem list"

definition flushBatch_start :: "db_module \<Rightarrow> flush_start \<times> db_module" where
  "flushBatch_start m =
     (let m1 = (if batchTimer m then m\<lparr>batchTimer := False\<rparr> else m)
      in if length (dataBatch m1) = 0 then (Skipped, m1)
         else (Started (dataBatch m1), m1\<lparr>dataBatch := []\<rparr>))"

text \<open>
  \<^verbatim>\<open>saveToDatabase\<close>: push, arm the timer when none is held, and call \<^verbatim>\<open>flushBatch\<close>
  (not awaited) when the batch has reached \<^verbatim>\<open>config.app.batchSize\<close>. The first
  component of the result is the \<^verbatim>\<open>flushBatch\<close> call made, if any.
\<close>

definition saveToDatabase ::
  "app_config \<Rightarrow> string \<Rightarrow> real \<Rightarrow> string option \<Rightarrow> string option \<Rightarrow> real option
     \<Rightarrow> db_module \<Rightarrow> flush_start option \<times> db_module"
where
  "saveToDatabase cfg tp l iname ty sk m =
     (let m1 = m\<lparr>dataBatch := dataBatch m @
                   [\<lparr>topic = tp, ltp = l, indexName = iname, itype = ty, strike = sk\<rparr>]\<rparr>;
          m2 = (if \<not> batchTimer m1 then m1\<lparr>batchTimer := True\<rparr> else m1)
      in if length (dataBatch m2) \<ge> batchSize cfg
         then (case flushBatch_start m2 of (f, m3) \<Rightarrow> (Some f, m3))
         else (None, m2))"

text \<open>Enqueuing observations one after the other; the \<^verbatim>\<open>flushBatch\<close> calls made, in order.\<close>

fun enqueue_all ::
  "app_config \<Rightarrow> BatchItem list \<Rightarrow> db_module \<Rightarrow> flush_start list \<times> db_module"
where
  "enqueue_all cfg [] m = ([], m)"
| "enqueue_all cfg (x # xs) m =
     (case saveToDatabase cfg (topic x) (ltp x) (indexName x) (itype x) (strike x) m of
        (f, m1) \<Rightarrow>
          (case enqueue_all cfg xs m1 of
             (fs, m2) \<Rightarrow> ((case f of None \<Rightarrow> [] | Some c \<Rightarrow> [c]) @ fs, m2)))"

text \<open>
  The asynchronous part of \<^verbatim>\<open>flushBatch\<close>, on the snapshot. \<^verbatim>\<open>batchToProcess.map\<close>
  starts every \<^verbatim>\<open>getTopicId\<close> call before any of them resumes, so all calls read the
  cache first; the store then answers the queries in the order they were issued:
  every call takes its first step, then every call its second, then its third.
  \<^verbatim>\<open>Promise.all\<close> rejects when a call has thrown; the calls still in flight run to
  their end all the same, and the model lets them finish before the \<^verbatim>\<open>ROLLBACK\<close>.
\<close>

definition batch_calls :: "BatchItem list \<Rightarrow> call list" where
  "batch_calls batch = map (\<lambda>x. (topic x, indexName x, itype x, strike x)) batch"

definition resolve_all ::
  "BatchItem list \<Rightarrow> db_module \<Rightarrow> store \<Rightarrow> call_state list \<times> db_module \<times> store"
where
  "resolve_all batch m st =
     (let n = length batch
      in run_schedule (batch_calls batch) ([0..<n] @ [0..<n] @ [0..<n])
           (replicate n Pending, m, st))"

fun topic_ids :: "call_state list \<Rightarrow> nat list option" where
  "topic_ids [] = Some []"
| "topic_ids (Returned i # pcs) =
     (case topic_ids pcs of None \<Rightarrow> None | Some ids \<Rightarrow> Some (i # ids))"
| "topic_ids (pc # pcs) = None"

text \<open>The body of the inner \<^verbatim>\<open>try\<close>: \<^verbatim>\<open>BEGIN\<close>, topic ids, bulk insert, \<^verbatim>\<open>COMMIT\<close>.\<close>

definition flush_transaction ::
  "BatchItem list \<Rightarrow> db_module \<Rightarrow> store \<Rightarrow> (db_error + unit) \<times> db_module \<times> store"
where
  "flush_transaction batch m st =
     (case tx_begin st of
        (False, st1) \<Rightarrow> (Inl DbError, m, st1)
      | (True, st1) \<Rightarrow>
          (case resolve_all batch m st1 of
             (pcs, m2, st2) \<Rightarrow>
               (case topic_ids pcs of
                  None \<Rightarrow> (Inl DbError, m2, st2)
                | Some topicIds \<Rightarrow>
                    (case tx_insert_ltp (zip topicIds (map ltp batch)) st2 of
                       (False, st3) \<Rightarrow> (Inl DbError, m2, st3)
                     | (True, st3) \<Rightarrow>
                         (case tx_commit st3 of
                            (False, st4) \<Rightarrow> (Inl DbError, m2, st4)
                          | (True, st4) \<Rightarrow> (Inr (), m2, st4))))))"

text \<open>
  Around it: \<^verbatim>\<open>pool.connect()\<close>; on an error of the body \<^verbatim>\<open>ROLLBACK\<close>, then the error
  is rethrown (the error of a failed \<^verbatim>\<open>ROLLBACK\<close> takes its place); the client is
  released either way.
\<close>

definition flushBatch_write ::
  "BatchItem list \<Rightarrow> db_module \<Rightarrow> store \<Rightarrow> (db_error + unit) \<times> db_module \<times> store"
where
  "flushBatch_write batch m st =
     (case pool_connect st of
        (False, st1) \<Rightarrow> (Inl DbError, m, st1)
      | (True, st1) \<Rightarrow>
          (case flush_transaction batch m st1 of
             (Inr u, m2, st2) \<Rightarrow> (Inr u, m2, st2)
           | (Inl e, m2, st2) \<Rightarrow>
               (case tx_rollback st2 of
                  (False, st3) \<Rightarrow> (Inl DbError, m2, st3)
                | (True, st3) \<Rightarrow> (Inl e, m2, st3))))"

text \<open>A whole \<^verbatim>\<open>flushBatch\<close> call, run with nothing else in between.\<close>

definition flushBatch :: "db_module \<Rightarrow> store \<Rightarrow> (db_error + unit) \<times> db_module \<times> store" where
  "flushBatch m st =
     (case flushBatch_start m of
        (Skipped, m1) \<Rightarrow> (Inr (), m1, st)
      | (Started batchToProcess, m1) \<Rightarrow> flushBatch_write batchToProcess m1 st)"

section \<open>Database module: the automatic callers of \<^verbatim>\<open>flushBatch\<close>\<close>







section \<open>Database module: sequential calls and initial state\<close>

text \<open>
  Calls of \<^verbatim>\<open>getTopicId\<close> one after the other, each returning before the next starts,
  and the number of Topic Records the store holds for an identifier.
\<close>

fun get_all ::
  "call list \<Rightarrow> db_module \<Rightarrow> store \<Rightarrow> (db_error + nat) list \<times> db_module \<times> store"
where
  "get_all [] m st = ([], m, st)"
| "get_all ((nm, iname, ty, sk) # cs) m st =
     (case getTopicId nm iname ty sk m st of
        (r, m1, st1) \<Rightarrow>
          (case get_all cs m1 st1 of (rs, m2, st2) \<Rightarrow> (r # rs, m2, st2)))"

definition rows_named :: "string \<Rightarrow> store \<Rightarrow> nat" where
  "rows_named nm st = length (filter (\<lambda>r. topic_name r = nm) (topics st))"

text \<open>The module variables as the module initialises them.\<close>

definition db_initial :: db_module where
  "db_initial = \<lparr>dataBatch = [], batchTimer = False, topicCache = Map.empty\<rparr>"

section \<open>JavaScript values\<close>

text \<open>
  Decoded messages and response bodies have the type \<^verbatim>\<open>any\<close> in the source, and the
  code inspects them with truthiness tests, \<^verbatim>\<open>typeof\<close> and \<^verbatim>\<open>Array.isArray\<close>.
\<close>

datatype js =
    JUndefined
  | JNull
  | JBool bool
  | JNum real
  | JStr string
  | JArr "js list"
  | JObj "(string \<times> js) list"

fun truthy :: "js \<Rightarrow> bool" where
  "truthy JUndefined = False"
| "truthy JNull = False"
| "truthy (JBool b) = b"
| "truthy (JNum r) = (r \<noteq> 0)"
| "truthy (JStr s) = (s \<noteq> [])"
| "truthy (JArr xs) = True"
| "truthy (JObj fs) = True"

text \<open>
  Reading one of the properties \<^verbatim>\<open>ltp\<close>, \<^verbatim>\<open>data\<close>, \<^verbatim>\<open>token\<close>: a \<^verbatim>\<open>TypeError\<close>
  (\<open>None\<close>) on \<^verbatim>\<open>undefined\<close> and \<^verbatim>\<open>null\<close>, the field of an object, and \<^verbatim>\<open>undefined\<close>
  when the object has no such field or the value is a primitive or an array.
\<close>

fun getProp :: "js \<Rightarrow> string \<Rightarrow> js option" where
  "getProp JUndefined k = None"
| "getProp JNull k = None"
| "getProp (JObj fs) k = (case map_of fs k of None \<Rightarrow> Some JUndefined | Some v \<Rightarrow> Some v)"
| "getProp v k = Some JUndefined"

text \<open>\<^verbatim>\<open>typeof v === "number"\<close>, with the number.\<close>

fun asNumber :: "js \<Rightarrow> real option" where
  "asNumber (JNum r) = Some r"
| "asNumber v = None"

section \<open>Decoding a message\<close>

text \<open>
  The generated protobuf decoders and \<^verbatim>\<open>JSON.parse\<close> are not among the modelled
  sources. A message is given by what each of them does on it: the decoded value, or
  \<open>None\<close> when it throws.
\<close>

record payload =
  asMarketData :: "js option"
  asMarketDataBatch :: "js option"
  asJson :: "js option"

text \<open>\<^verbatim>\<open>if (decoded && typeof decoded.ltp === "number") ltpValues.push(decoded.ltp)\<close>.\<close>

definition ltpOf :: "js \<Rightarrow> real list" where
  "ltpOf decoded =
     (if truthy decoded
      then (case getProp decoded ''ltp'' of
              Some v \<Rightarrow> (case asNumber v of Some r \<Rightarrow> [r] | None \<Rightarrow> [])
            | None \<Rightarrow> [])
      else [])"

text \<open>
  \<^verbatim>\<open>decoded.data.map((d) => d.ltp)\<close>: \<open>None\<close> when reading \<^verbatim>\<open>ltp\<close> of an element
  throws.
\<close>

fun mapLtp :: "js list \<Rightarrow> js list option" where
  "mapLtp [] = Some []"
| "mapLtp (d # ds) =
     (case getProp d ''ltp'' of
        None \<Rightarrow> None
      | Some v \<Rightarrow> (case mapLtp ds of None \<Rightarrow> None | Some vs \<Rightarrow> Some (v # vs)))"

text \<open>\<^verbatim>\<open>.filter((v) => typeof v === "number")\<close>.\<close>

definition numbersOf :: "js list \<Rightarrow> real list" where
  "numbersOf vs = concat (map (\<lambda>v. case asNumber v of Some r \<Rightarrow> [r] | None \<Rightarrow> []) vs)"

text \<open>
  The third attempt, inside \<^verbatim>\<open>catch (batchErr)\<close>: the prices, and whether the failure
  was reported with \<^verbatim>\<open>console.error\<close>.
\<close>

definition decodeJson :: "payload \<Rightarrow> real list \<times> bool" where
  "decodeJson p =
     (case asJson p of
        Some decoded \<Rightarrow> (ltpOf decoded, False)
      | None \<Rightarrow> ([], True))"

text \<open>The second attempt, inside \<^verbatim>\<open>catch (err)\<close>; an exception in it leads to the third.\<close>

definition decodeBatch :: "payload \<Rightarrow> real list \<times> bool" where
  "decodeBatch p =
     (case asMarketDataBatch p of
        None \<Rightarrow> decodeJson p
      | Some decoded \<Rightarrow>
          (if truthy decoded
           then (case getProp decoded ''data'' of
                   Some (JArr ds) \<Rightarrow>
                     (case mapLtp ds of
                        None \<Rightarrow> decodeJson p
                      | Some vs \<Rightarrow> (numbersOf vs, False))
                 | _ \<Rightarrow> ([], False))
           else ([], False)))"

text \<open>The decoding part of \<^verbatim>\<open>processMessage\<close>: \<^verbatim>\<open>ltpValues\<close> and the report.\<close>

definition decodeMessage :: "payload \<Rightarrow> real list \<times> bool" where
  "decodeMessage p =
     (case asMarketData p of
        Some decoded \<Rightarrow> (ltpOf decoded, False)
      | None \<Rightarrow> decodeBatch p)"

section \<open>Subscription manager and router: state and environment\<close>

datatype side = ce | pe

text \<open>
  What the process does to the outside, in order: the \<^verbatim>\<open>console.error\<close> of a decode
  failure (with the topic), \<^verbatim>\<open>client.subscribe\<close>, the \<^verbatim>\<open>fetch\<close> of a token (index,
  strike, option type), a call of \<^verbatim>\<open>subscribeToAtmOptions\<close> (index, ATM strike), a
  call of \<^verbatim>\<open>db.saveToDatabase\<close>, and the \<^verbatim>\<open>flushBatch\<close> call that
  \<^verbatim>\<open>saveToDatabase\<close> makes when the batch is full.
\<close>

datatype event =
    DecodeFailure string
  | Subscribe string
  | FetchToken string real side
  | Expand string real
  | Save BatchItem
  | FlushCall flush_start

text \<open>
  The module variables of the router (\<^verbatim>\<open>indexLtpMap\<close>, \<^verbatim>\<open>atmStrikeMap\<close>) and of the
  subscription manager (\<^verbatim>\<open>activeSubscriptions\<close>, \<^verbatim>\<open>isFirstIndexMessage\<close>), the state
  of the database module, and the events so far.
\<close>

record app_state =
  indexLtpMap :: "string \<rightharpoonup> real"
  atmStrikeMap :: "string \<rightharpoonup> real"
  activeSubscriptions :: "string set"
  isFirstIndexMessage :: "string \<rightharpoonup> bool"
  sink :: db_module
  events :: "event list"

text \<open>The answer of the token endpoint to one request.\<close>

datatype fetch_result =
    NetworkError
  | Response bool nat "js option"

text \<open>
  What the modelled modules import and what answers them. \<^verbatim>\<open>INDICES\<close>,
  \<^verbatim>\<open>EXPIRY_DATES\<close> and \<^verbatim>\<open>STRIKE_RANGE\<close> come from the configuration module,
  \<^verbatim>\<open>getAtmStrike\<close> and \<^verbatim>\<open>getStrikeDiff\<close> from the utilities module; neither module is
  among the modelled sources, so they are parameters. \<open>fetch\<close> is the token endpoint,
  asked with index, expiry date, option type and strike: a network error, or a
  response with its \<^verbatim>\<open>ok\<close> flag, its status and its body as \<^verbatim>\<open>response.json()\<close>
  parses it (\<open>None\<close> when that throws). \<open>toStr\<close> is the string conversion of a
  template literal.
\<close>

record env =
  app :: app_config
  INDICES :: "string list"
  EXPIRY_DATES :: "string \<rightharpoonup> string"
  STRIKE_RANGE :: int
  getAtmStrike :: "string \<Rightarrow> real \<Rightarrow> real"
  getStrikeDiff :: "string \<Rightarrow> real"
  fetch :: "string \<Rightarrow> string option \<Rightarrow> side \<Rightarrow> real \<Rightarrow> fetch_result"
  toStr :: "js \<Rightarrow> string"

definition app_initial :: app_state where
  "app_initial =
     \<lparr>indexLtpMap = Map.empty, atmStrikeMap = Map.empty, activeSubscriptions = {},
      isFirstIndexMessage = Map.empty, sink = db_initial, events = []\<rparr>"

definition emit :: "event \<Rightarrow> app_state \<Rightarrow> app_state" where
  "emit e s = s\<lparr>events := events s @ [e]\<rparr>"

section \<open>Subscription manager\<close>

text \<open>
  \<^verbatim>\<open>subscribeToAllIndices\<close>: for every configured index, \<^verbatim>\<open>client.subscribe\<close> on
  \<^verbatim>\<open>index/<name>\<close> and then \<^verbatim>\<open>activeSubscriptions.add\<close>.
  \<^verbatim>\<open>initializeFirstMessageTracking\<close>: the flag of every configured index is set.
\<close>

definition subscribeToAllIndices :: "env \<Rightarrow> app_state \<Rightarrow> app_state" where
  "subscribeToAllIndices E s =
     foldl (\<lambda>s i.
              (emit (Subscribe (''index/'' @ i)) s)
                \<lparr>activeSubscriptions := insert (''index/'' @ i) (activeSubscriptions s)\<rparr>)
           s (INDICES E)"

definition initializeFirstMessageTracking :: "env \<Rightarrow> app_state \<Rightarrow> app_state" where
  "initializeFirstMessageTracking E s =
     foldl (\<lambda>s i. s\<lparr>isFirstIndexMessage := (isFirstIndexMessage s)(i \<mapsto> True)\<rparr>)
           s (INDICES E)"

text \<open>
  \<^verbatim>\<open>getOptionToken\<close>: one \<^verbatim>\<open>fetch\<close>; a network error, a response that is not \<^verbatim>\<open>ok\<close>,
  a body that does not parse and a body without a readable \<^verbatim>\<open>token\<close> are all caught
  and give \<^verbatim>\<open>null\<close> (\<open>None\<close>); otherwise \<^verbatim>\<open>data.token || null\<close>.
\<close>

definition tokenOf :: "fetch_result \<Rightarrow> js option" where
  "tokenOf r =
     (case r of
        NetworkError \<Rightarrow> None
      | Response ok status body \<Rightarrow>
          (if \<not> ok then None
           else (case body of
                   None \<Rightarrow> None
                 | Some d \<Rightarrow>
                     (case getProp d ''token'' of
                        None \<Rightarrow> None
                      | Some t \<Rightarrow> if truthy t then Some t else None))))"

definition getOptionToken ::
  "env \<Rightarrow> string \<Rightarrow> real \<Rightarrow> side \<Rightarrow> app_state \<Rightarrow> js option \<times> app_state"
where
  "getOptionToken E i k sd s =
     (tokenOf (fetch E i (EXPIRY_DATES E i) sd k), emit (FetchToken i k sd) s)"

text \<open>
  \<^verbatim>\<open>if (token) { if (!activeSubscriptions.has(t)) { client.subscribe(t);
  activeSubscriptions.add(t) } }\<close>, the same for both option types.
\<close>

definition optionTopic :: "env \<Rightarrow> js \<Rightarrow> string" where
  "optionTopic E t = ''index/NSE_FO|'' @ toStr E t"

definition subscribeOption :: "env \<Rightarrow> js option \<Rightarrow> app_state \<Rightarrow> app_state" where
  "subscribeOption E tok s =
     (case tok of
        None \<Rightarrow> s
      | Some t \<Rightarrow>
          (if optionTopic E t \<in> activeSubscriptions s then s
           else (emit (Subscribe (optionTopic E t)) s)
                  \<lparr>activeSubscriptions := insert (optionTopic E t) (activeSubscriptions s)\<rparr>))"

text \<open>The body of the loop over the strikes.\<close>

definition subscribeStrike :: "env \<Rightarrow> string \<Rightarrow> real \<Rightarrow> app_state \<Rightarrow> app_state" where
  "subscribeStrike E i k s =
     (case getOptionToken E i k ce s of
        (ceToken, s1) \<Rightarrow>
          (case getOptionToken E i k pe s1 of
             (peToken, s2) \<Rightarrow> subscribeOption E peToken (subscribeOption E ceToken s2)))"

text \<open>\<^verbatim>\<open>for (let i = -STRIKE_RANGE; i <= STRIKE_RANGE; i++) strikes.push(atmStrike + i * strikeDiff)\<close>.\<close>

definition strikesAround :: "env \<Rightarrow> string \<Rightarrow> real \<Rightarrow> real list" where
  "strikesAround E i atmStrike =
     map (\<lambda>j. atmStrike + of_int j * getStrikeDiff E i) [- STRIKE_RANGE E..STRIKE_RANGE E]"

definition subscribeToAtmOptions :: "env \<Rightarrow> string \<Rightarrow> real \<Rightarrow> app_state \<Rightarrow> app_state" where
  "subscribeToAtmOptions E i atmStrike s =
     foldl (\<lambda>s k. subscribeStrike E i k s) (emit (Expand i atmStrike) s)
           (strikesAround E i atmStrike)"

section \<open>Router: \<^verbatim>\<open>processMessage\<close>\<close>

text \<open>\<^verbatim>\<open>topic.startsWith(p)\<close> and \<^verbatim>\<open>topic.split('/')\<close>.\<close>

definition startsWith :: "string \<Rightarrow> string \<Rightarrow> bool" where
  "startsWith t p = (take (length p) t = p)"

fun splitOn :: "char \<Rightarrow> string \<Rightarrow> string list" where
  "splitOn c [] = [[]]"
| "splitOn c (x # xs) =
     (if x = c then [] # splitOn c xs
      else (case splitOn c xs of
              [] \<Rightarrow> [[x]]
            | w # ws \<Rightarrow> (x # w) # ws))"

text \<open>\<^verbatim>\<open>topic.split('/')[1]\<close>; \<open>None\<close> is \<^verbatim>\<open>undefined\<close>, when the topic has no slash.\<close>

definition indexNameOf :: "string \<Rightarrow> string option" where
  "indexNameOf t = (case splitOn CHR ''/'' t of a # b # rest \<Rightarrow> Some b | _ \<Rightarrow> None)"

text \<open>
  The first block of the loop body, for a topic under the index prefix: remember the
  price, compute the ATM strike, and expand the chain on the first message of the
  index or when the strike has moved by a strike difference or more.
  \<^verbatim>\<open>atmStrikeMap.get(indexName) || 0\<close> is 0 when no strike is recorded.
\<close>

definition trackIndex :: "env \<Rightarrow> string \<Rightarrow> real \<Rightarrow> app_state \<Rightarrow> app_state" where
  "trackIndex E i l s =
     (let prevLtp = indexLtpMap s i;
          s1 = s\<lparr>indexLtpMap := (indexLtpMap s)(i \<mapsto> l)\<rparr>;
          atmStrike = getAtmStrike E i l;
          isFirstMessage = (isFirstIndexMessage s1 i = Some True)
      in if isFirstMessage \<or>
            (prevLtp \<noteq> None \<and>
             \<bar>atmStrike - (case atmStrikeMap s1 i of None \<Rightarrow> 0 | Some a \<Rightarrow> a)\<bar>
               \<ge> getStrikeDiff E i)
         then (let s2 = s1\<lparr>atmStrikeMap := (atmStrikeMap s1)(i \<mapsto> atmStrike)\<rparr>;
                   s3 = subscribeToAtmOptions E i atmStrike s2
               in if isFirstMessage
                  then s3\<lparr>isFirstIndexMessage := (isFirstIndexMessage s3)(i \<mapsto> False)\<rparr>
                  else s3)
         else s1)"

text \<open>
  The call \<^verbatim>\<open>db.saveToDatabase(topic, ltp, indexName, type, strike)\<close> on the state of
  the database module; the \<^verbatim>\<open>flushBatch\<close> call it makes, if any, is recorded with its
  snapshot.
\<close>

definition forward ::
  "env \<Rightarrow> string \<Rightarrow> real \<Rightarrow> string option \<Rightarrow> string option \<Rightarrow> real option
     \<Rightarrow> app_state \<Rightarrow> app_state"
where
  "forward E tp l iname ty sk s =
     (case saveToDatabase (app E) tp l iname ty sk (sink s) of
        (f, m) \<Rightarrow>
          (let s1 = (emit (Save \<lparr>topic = tp, ltp = l, indexName = iname, itype = ty,
                                  strike = sk\<rparr>) s)\<lparr>sink := m\<rparr>
           in case f of None \<Rightarrow> s1 | Some c \<Rightarrow> emit (FlushCall c) s1))"

text \<open>
  The loop body. Under the guard the topic has a slash, so the index name is never
  \<^verbatim>\<open>undefined\<close> there. \<^verbatim>\<open>type\<close> and \<^verbatim>\<open>strike\<close> are never assigned.
\<close>

definition processLtp :: "env \<Rightarrow> string \<Rightarrow> real \<Rightarrow> app_state \<Rightarrow> app_state" where
  "processLtp E tp l s =
     (let isIndex = startsWith tp (indexPrefix (app E) @ ''/'');
          s1 = (if isIndex
                then (case indexNameOf tp of None \<Rightarrow> s | Some i \<Rightarrow> trackIndex E i l s)
                else s);
          iname = (if isIndex then indexNameOf tp else None)
      in forward E tp l iname None None s1)"

definition processMessage :: "env \<Rightarrow> string \<Rightarrow> payload \<Rightarrow> app_state \<Rightarrow> app_state" where
  "processMessage E tp p s =
     (case decodeMessage p of
        (ltpValues, failed) \<Rightarrow>
          foldl (\<lambda>s l. processLtp E tp l s)
                (if failed then emit (DecodeFailure tp) s else s)
                ltpValues)"

section \<open>Reading the events\<close>

fun expansions :: "event list \<Rightarrow> (string \<times> real) list" where
  "expansions [] = []"
| "expansions (Expand i k # es) = (i, k) # expansions es"
| "expansions (e # es) = expansions es"

fun subscribed :: "event list \<Rightarrow> string list" where
  "subscribed [] = []"
| "subscribed (Subscribe t # es) = t # subscribed es"
| "subscribed (e # es) = subscribed es"

fun fetched :: "event list \<Rightarrow> (string \<times> real \<times> side) list" where
  "fetched [] = []"
| "fetched (FetchToken i k sd # es) = (i, k, sd) # fetched es"
| "fetched (e # es) = fetched es"

fun forwarded :: "event list \<Rightarrow> BatchItem list" where
  "forwarded [] = []"
| "forwarded (Save x # es) = x # forwarded es"
| "forwarded (e # es) = forwarded es"

fun failures :: "event list \<Rightarrow> string list" where
  "failures [] = []"
| "failures (DecodeFailure t # es) = t # failures es"
| "failures (e # es) = failures es"

text \<open>The observations in the snapshots of a list of \<^verbatim>\<open>flushBatch\<close> calls.\<close>

fun written :: "flush_start list \<Rightarrow> BatchItem list" where
  "written [] = []"
| "written (Started b # fs) = b @ written fs"
| "written (Skipped # fs) = written fs"

fun flushCalls :: "event list \<Rightarrow> flush_start list" where
  "flushCalls [] = []"
| "flushCalls (FlushCall c # es) = c # flushCalls es"
| "flushCalls (e # es) = flushCalls es"

section \<open>Notions used by the properties\<close>



text \<open>The topics one leg of an expansion contributes: none when its token is \<^verbatim>\<open>null\<close>.\<close>

definition legTopics :: "env \<Rightarrow> string \<Rightarrow> real \<Rightarrow> side \<Rightarrow> string set" where
  "legTopics E i k sd =
     (case tokenOf (fetch E i (EXPIRY_DATES E i) sd k) of
        None \<Rightarrow> {}
      | Some t \<Rightarrow> {optionTopic E t})"

text \<open>
  An index whose first-message flag has been reset has a last price and a recorded
  ATM strike.
\<close>

definition tracking_inv :: "app_state \<Rightarrow> bool" where
  "tracking_inv s =
     (\<forall>i. isFirstIndexMessage s i = Some False \<longrightarrow>
          indexLtpMap s i \<noteq> None \<and> atmStrikeMap s i \<noteq> None)"

text \<open>The observation \<^verbatim>\<open>processMessage\<close> hands to the database module for a price.\<close>

definition observation :: "env \<Rightarrow> string \<Rightarrow> real \<Rightarrow> BatchItem" where
  "observation E tp l =
     \<lparr>topic = tp, ltp = l,
      indexName = (if startsWith tp (indexPrefix (app E) @ ''/'') then indexNameOf tp else None),
      itype = None, strike = None\<rparr>"

text \<open>A batch element whose \<^verbatim>\<open>ltp\<close> is a number.\<close>

definition hasNumericLtp :: "js \<Rightarrow> bool" where
  "hasNumericLtp d =
     (case getProp d ''ltp'' of
        Some v \<Rightarrow> (case asNumber v of Some r \<Rightarrow> True | None \<Rightarrow> False)
      | None \<Rightarrow> False)"

text \<open>The price of a batch element, when its \<^verbatim>\<open>ltp\<close> is a number.\<close>

definition elementPrice :: "js \<Rightarrow> real option" where
  "elementPrice d = (case getProp d ''ltp'' of Some v \<Rightarrow> asNumber v | None \<Rightarrow> None)"

section \<open>Sample data\<close>

text \<open>An empty store, a configuration with threshold 2, and ticks.\<close>

definition empty_store :: store where
  "empty_store =
     \<lparr>topics = [], ltp_data = [], next_topic_id = 1, unique_topic_name = False,
      tx = None, faults = [], qlog = []\<rparr>"

definition sample_config :: app_config where
  "sample_config = \<lparr>indexPrefix = ''index'', batchSize = 2, batchInterval = 5000\<rparr>"

definition tick :: "string \<Rightarrow> real \<Rightarrow> BatchItem" where
  "tick tp l = \<lparr>topic = tp, ltp = l, indexName = None, itype = None, strike = None\<rparr>"

definition nifty_call :: call where
  "nifty_call = (''index/NIFTY'', Some ''NIFTY'', None, None)"

text \<open>
  Modelled from the spec: the utilities module (\<^verbatim>\<open>getAtmStrike\<close>, \<^verbatim>\<open>getStrikeDiff\<close>) is
  not among the modelled sources. The spec describes it as computing the nearest
  valid strike for an index and a price, and the index-specific spacing; the sample
  uses the spacing 50.
\<close>

definition sample_getStrikeDiff :: "string \<Rightarrow> real" where
  "sample_getStrikeDiff i = 50"

definition sample_getAtmStrike :: "string \<Rightarrow> real \<Rightarrow> real" where
  "sample_getAtmStrike i l = of_int (round (l / sample_getStrikeDiff i)) * sample_getStrikeDiff i"

text \<open>
  A token endpoint that fails in the three ways for three legs around 20000 and
  answers every other leg with a token naming the leg.
\<close>

definition sample_fetch :: "string \<Rightarrow> string option \<Rightarrow> side \<Rightarrow> real \<Rightarrow> fetch_result" where
  "sample_fetch i expiry sd k =
     (if k = 19950 \<and> sd = pe then NetworkError
      else if k = 20000 \<and> sd = ce then Response False 500 None
      else if k = 20050 \<and> sd = pe then Response True 200 None
      else Response True 200
             (Some (JObj [(''token'',
                JStr ((if sd = ce then ''C'' else ''P'') @
                      (if k = 19950 then ''19950'' else if k = 20000 then ''20000''
                       else if k = 20050 then ''20050'' else ''0'')))])))"

definition sample_toStr :: "js \<Rightarrow> string" where
  "sample_toStr v = (case v of JStr s \<Rightarrow> s | _ \<Rightarrow> [])"

definition sample_env :: env where
  "sample_env =
     \<lparr>app = sample_config, INDICES = [''NIFTY''],
      EXPIRY_DATES = [''NIFTY'' \<mapsto> ''20250529''], STRIKE_RANGE = 1,
      getAtmStrike = sample_getAtmStrike, getStrikeDiff = sample_getStrikeDiff,
      fetch = sample_fetch, toStr = sample_toStr\<rparr>"

text \<open>
  A state in which NIFTY has had its first message: last price 20010, recorded ATM
  strike 20000, flag reset.
\<close>

definition tracked_state :: app_state where
  "tracked_state =
     app_initial\<lparr>indexLtpMap := [''NIFTY'' \<mapsto> 20010], atmStrikeMap := [''NIFTY'' \<mapsto> 20000],
                 isFirstIndexMessage := [''NIFTY'' \<mapsto> False]\<rparr>"

text \<open>Sample messages: a single record, and a batch of three elements, two with a price.\<close>

definition single_record :: payload where
  "single_record =
     \<lparr>asMarketData = Some (JObj [(''ltp'', JNum 20012.5)]), asMarketDataBatch = None,
      asJson = None\<rparr>"

definition sample_elements :: "js list" where
  "sample_elements =
     [JObj [(''ltp'', JNum 20012.5)], JObj [(''ltp'', JStr ''n/a'')], JObj [(''ltp'', JNum 20013)]]"

definition batch_record :: payload where
  "batch_record =
     \<lparr>asMarketData = None,
      asMarketDataBatch = Some (JObj [(''data'', JArr sample_elements)]),
      asJson = None\<rparr>"



text \<open>
  A store whose seventh statement fails: for a flush of two ticks on one unseen topic
  these are connect, \<^verbatim>\<open>BEGIN\<close>, two topic \<^verbatim>\<open>SELECT\<close>s, two topic \<^verbatim>\<open>INSERT\<close>s and
  then the bulk \<^verbatim>\<open>INSERT\<close> of the observations. And a running process on it with
  one tick in the pending buffer.
\<close>

definition bulk_write_fails :: store where
  "bulk_write_fails =
     empty_store\<lparr>faults := [False, False, False, False, False, False, True]\<rparr>"


text \<open>
  A message that both binary decoders accept: as a record without a price (its
  \<^verbatim>\<open>ltp\<close> is the default 0), and as the batch of the three sample elements.
\<close>

definition accepted_by_both :: payload where
  "accepted_by_both =
     \<lparr>asMarketData = Some (JObj [(''ltp'', JNum 0)]),
      asMarketDataBatch = Some (JObj [(''data'', JArr sample_elements)]),
      asJson = None\<rparr>"

section \<open>Reconnect backoff: properties\<close>








section \<open>Storage sink: flush by size\<close>

lemma enqueue_below:
  "length (dataBatch m) + length xs < batchSize cfg \<Longrightarrow>
   enqueue_all cfg xs m =
     ([], m\<lparr>dataBatch := dataBatch m @ xs, batchTimer := batchTimer m \<or> xs \<noteq> []\<rparr>)"
proof (induction xs arbitrary: m)
  case Nil
  then show ?case by simp
next
  case (Cons x xs)
  let ?m1 = "m\<lparr>dataBatch := dataBatch m @ [x], batchTimer := True\<rparr>"
  have save: "saveToDatabase cfg (topic x) (ltp x) (indexName x) (itype x) (strike x) m
                = (None, ?m1)"
    using Cons.prems by (simp add: saveToDatabase_def Let_def)
  have "length (dataBatch ?m1) + length xs < batchSize cfg"
    using Cons.prems by simp
  from Cons.IH [OF this] show ?case
    by (simp add: save)
qed

lemma enqueue_reach:
  "xs \<noteq> [] \<Longrightarrow> length (dataBatch m) + length xs = batchSize cfg \<Longrightarrow>
   enqueue_all cfg xs m =
     ([Started (dataBatch m @ xs)], m\<lparr>dataBatch := [], batchTimer := False\<rparr>)"
proof (induction xs arbitrary: m)
  case Nil
  then show ?case by simp
next
  case (Cons x xs)
  show ?case
  proof (cases "xs = []")
    case True
    then show ?thesis
      using Cons.prems by (simp add: saveToDatabase_def flushBatch_start_def Let_def)
  next
    case False
    let ?m1 = "m\<lparr>dataBatch := dataBatch m @ [x], batchTimer := True\<rparr>"
    have save: "saveToDatabase cfg (topic x) (ltp x) (indexName x) (itype x) (strike x) m
                  = (None, ?m1)"
    proof -
      from False Cons.prems have "\<not> batchSize cfg \<le> Suc (length (dataBatch m))"
        by (cases xs) auto
      then show ?thesis by (simp add: saveToDatabase_def Let_def)
    qed
    have "length (dataBatch ?m1) + length xs = batchSize cfg"
      using Cons.prems by simp
    from Cons.IH [OF False this] show ?thesis
      by (simp add: save)
  qed
qed

lemma enqueue_all_append:
  "enqueue_all cfg (xs @ ys) m =
     (case enqueue_all cfg xs m of
        (fs, m1) \<Rightarrow> (case enqueue_all cfg ys m1 of (gs, m2) \<Rightarrow> (fs @ gs, m2)))"
  by (induction xs arbitrary: m) (simp_all split: prod.splits)

text \<open>
  C4. With a positive threshold \<^verbatim>\<open>config.app.batchSize\<close> and an empty pending buffer,
  enqueuing exactly threshold-many observations through \<^verbatim>\<open>saveToDatabase\<close>, with no
  timer firing in between, makes exactly one \<^verbatim>\<open>flushBatch\<close> call; that call goes on
  to write, its snapshot is exactly the enqueued observations in order, and it leaves
  an empty buffer and no timer behind, before any write. Observations enqueued after
  it (fewer than the threshold) are in the new buffer and in no snapshot.
\<close>

theorem size_triggered_flush:
  assumes "0 < batchSize cfg" and "length xs = batchSize cfg" and "dataBatch m = []"
  shows "enqueue_all cfg xs m = ([Started xs], m\<lparr>dataBatch := [], batchTimer := False\<rparr>) \<and>
         (\<forall>ys. length ys < batchSize cfg \<longrightarrow>
            enqueue_all cfg (xs @ ys) m =
              ([Started xs], m\<lparr>dataBatch := ys, batchTimer := (ys \<noteq> [])\<rparr>))"
proof -
  from assms have "xs \<noteq> []" by auto
  with assms enqueue_reach [of xs m cfg]
  have first: "enqueue_all cfg xs m = ([Started xs], m\<lparr>dataBatch := [], batchTimer := False\<rparr>)"
    by simp
  then show ?thesis
    by (simp add: enqueue_all_append enqueue_below)
qed

theorem size_triggered_flush_witness:
  "enqueue_all sample_config [tick ''index/NIFTY'' 20012.5, tick ''index/NIFTY'' 20013] db_initial
     = ([Started [tick ''index/NIFTY'' 20012.5, tick ''index/NIFTY'' 20013]],
        db_initial\<lparr>dataBatch := [], batchTimer := False\<rparr>) \<and>
   enqueue_all sample_config
       ([tick ''index/NIFTY'' 20012.5, tick ''index/NIFTY'' 20013] @ [tick ''index/NIFTY'' 20014])
       db_initial
     = ([Started [tick ''index/NIFTY'' 20012.5, tick ''index/NIFTY'' 20013]],
        db_initial\<lparr>dataBatch := [tick ''index/NIFTY'' 20014], batchTimer := True\<rparr>)"
proof -
  let ?xs = "[tick ''index/NIFTY'' 20012.5, tick ''index/NIFTY'' 20013]"
  let ?y = "tick ''index/NIFTY'' 20014"
  have h1: "0 < batchSize sample_config"
    by (simp add: sample_config_def)
  have h2: "length ?xs = batchSize sample_config"
    by (simp add: sample_config_def)
  have h3: "dataBatch db_initial = []"
    by (simp add: db_initial_def)
  have h4: "length [?y] < batchSize sample_config"
    by (simp add: sample_config_def)
  have e: "([?y] \<noteq> []) = True"
    by simp
  note t = size_triggered_flush [OF h1 h2 h3]
  from t h4 have "enqueue_all sample_config (?xs @ [?y]) db_initial
      = ([Started ?xs], db_initial\<lparr>dataBatch := [?y], batchTimer := ([?y] \<noteq> [])\<rparr>)"
    by blast
  then have "enqueue_all sample_config (?xs @ [?y]) db_initial
      = ([Started ?xs], db_initial\<lparr>dataBatch := [?y], batchTimer := True\<rparr>)"
    by (simp only: e)
  with t show ?thesis by blast
qed

section \<open>Storage sink: what a flush leaves in the store\<close>

lemma receive_keeps:
  "receive q st = (f, st') \<Longrightarrow>
     ltp_data st' = ltp_data st \<and> tx st' = tx st \<and> topics st' = topics st \<and>
     next_topic_id st' = next_topic_id st \<and> unique_topic_name st' = unique_topic_name st"
  by (auto simp: receive_def split: list.splits)

lemma pool_connect_keeps:
  "pool_connect st = (ok, st') \<Longrightarrow> ltp_data st' = ltp_data st \<and> tx st' = tx st"
  by (auto simp: pool_connect_def split: prod.splits dest: receive_keeps)

lemma select_topic_keeps:
  "select_topic nm st = (r, st') \<Longrightarrow> ltp_data st' = ltp_data st \<and> tx st' = tx st"
  by (auto simp: select_topic_def split: prod.splits if_splits dest: receive_keeps)

lemma insert_topic_keeps:
  "insert_topic nm a b c st = (r, st') \<Longrightarrow> ltp_data st' = ltp_data st \<and> tx st' = tx st"
  by (auto simp: insert_topic_def split: prod.splits if_splits dest: receive_keeps)

lemma call_step_keeps:
  "call_step c pc m st = (pc', m', st') \<Longrightarrow>
     ltp_data st' = ltp_data st \<and> tx st' = tx st \<and>
     dataBatch m' = dataBatch m \<and> batchTimer m' = batchTimer m"
  by (cases "(c, pc, m, st)" rule: call_step.cases)
     (auto split: prod.splits option.splits list.splits
           dest: select_topic_keeps insert_topic_keeps)

lemma run_schedule_keeps:
  "run_schedule cs sched (pcs, m, st) = (pcs', m', st') \<Longrightarrow>
     ltp_data st' = ltp_data st \<and> tx st' = tx st \<and>
     dataBatch m' = dataBatch m \<and> batchTimer m' = batchTimer m \<and>
     length pcs' = length pcs"
proof (induction sched arbitrary: pcs m st)
  case Nil
  then show ?case by simp
next
  case (Cons i sched)
  show ?case
  proof (cases "i < length cs \<and> i < length pcs")
    case False
    with Cons show ?thesis by auto
  next
    case True
    obtain pc m1 st1 where s: "call_step (cs ! i) (pcs ! i) m st = (pc, m1, st1)"
      by (cases "call_step (cs ! i) (pcs ! i) m st") auto
    with True Cons.prems have "run_schedule cs sched (pcs[i := pc], m1, st1) = (pcs', m', st')"
      by simp
    from Cons.IH [OF this] call_step_keeps [OF s] show ?thesis by simp
  qed
qed

lemma resolve_all_keeps:
  "resolve_all batch m st = (pcs, m', st') \<Longrightarrow>
     ltp_data st' = ltp_data st \<and> tx st' = tx st \<and>
     dataBatch m' = dataBatch m \<and> batchTimer m' = batchTimer m \<and>
     length pcs = length batch"
  unfolding resolve_all_def Let_def
  by (drule run_schedule_keeps) simp

lemma topic_ids_length: "topic_ids pcs = Some ids \<Longrightarrow> length ids = length pcs"
  by (induction pcs arbitrary: ids rule: topic_ids.induct) (auto split: option.splits)

lemma tx_begin_ok:
  "tx_begin st = (ok, st') \<Longrightarrow> no_pending st \<Longrightarrow>
     ltp_data st' = ltp_data st \<and> no_pending st' \<and> (ok \<longrightarrow> tx st' = Some [])"
  by (auto simp: tx_begin_def no_pending_def split: prod.splits if_splits dest: receive_keeps)

lemma tx_insert_ltp_pending:
  "tx_insert_ltp rows st = (ok, st') \<Longrightarrow> tx st = Some [] \<Longrightarrow>
     ltp_data st' = ltp_data st \<and> tx st' = Some (if ok then rows else [])"
  by (auto simp: tx_insert_ltp_def split: prod.splits if_splits option.splits dest: receive_keeps)

lemma tx_commit_effect:
  "tx_commit st = (ok, st') \<Longrightarrow> tx st = Some rows \<Longrightarrow>
     tx st' = None \<and> ltp_data st' = ltp_data st @ (if ok then rows else [])"
  by (auto simp: tx_commit_def split: prod.splits if_splits option.splits dest: receive_keeps)

lemma tx_rollback_effect:
  "tx_rollback st = (ok, st') \<Longrightarrow> no_pending st \<Longrightarrow>
     ltp_data st' = ltp_data st \<and> no_pending st'"
  by (auto simp: tx_rollback_def no_pending_def split: prod.splits if_splits dest: receive_keeps)

lemma flush_transaction_effect:
  assumes "flush_transaction batch m st = (r, m', st')" and "no_pending st"
  shows "dataBatch m' = dataBatch m \<and> batchTimer m' = batchTimer m \<and> no_pending st' \<and>
         (case r of
            Inl e \<Rightarrow> ltp_data st' = ltp_data st
          | Inr u \<Rightarrow> \<exists>ids. length ids = length batch \<and>
                        ltp_data st' = ltp_data st @ zip ids (map ltp batch))"
proof -
  obtain ok1 st1 where b: "tx_begin st = (ok1, st1)"
    by (cases "tx_begin st") auto
  note b1 = tx_begin_ok [OF b assms(2)]
  show ?thesis
  proof (cases ok1)
    case False
    with assms(1) b b1 show ?thesis
      by (auto simp: flush_transaction_def)
  next
    case True
    obtain pcs m2 st2 where ra: "resolve_all batch m st1 = (pcs, m2, st2)"
      by (cases "resolve_all batch m st1") auto
    note k = resolve_all_keeps [OF ra]
    from True b1 k have tx2: "tx st2 = Some []" by simp
    show ?thesis
    proof (cases "topic_ids pcs")
      case None
      with assms(1) b True ra k b1 tx2 show ?thesis
        by (auto simp: flush_transaction_def no_pending_def)
    next
      case (Some ids)
      note len = topic_ids_length [OF Some]
      obtain ok3 st3 where ins: "tx_insert_ltp (zip ids (map ltp batch)) st2 = (ok3, st3)"
        by (cases "tx_insert_ltp (zip ids (map ltp batch)) st2") auto
      note i3 = tx_insert_ltp_pending [OF ins tx2]
      show ?thesis
      proof (cases ok3)
        case False
        with assms(1) b True ra Some ins i3 k b1 show ?thesis
          by (auto simp: flush_transaction_def no_pending_def)
      next
        case ok3: True
        obtain ok4 st4 where c: "tx_commit st3 = (ok4, st4)"
          by (cases "tx_commit st3") auto
        from i3 ok3 have "tx st3 = Some (zip ids (map ltp batch))" by simp
        note c4 = tx_commit_effect [OF c this]
        from assms(1) b True ra Some ins ok3 c c4 i3 k b1 len show ?thesis
          by (cases ok4) (auto simp: flush_transaction_def no_pending_def)
      qed
    qed
  qed
qed


lemma flushBatch_write_effect:
  assumes "flushBatch_write batch m st = (r, m', st')" and "no_pending st"
  shows "dataBatch m' = dataBatch m \<and> batchTimer m' = batchTimer m \<and> no_pending st' \<and>
         (case r of
            Inl e \<Rightarrow> ltp_data st' = ltp_data st
          | Inr u \<Rightarrow> \<exists>ids. length ids = length batch \<and>
                        ltp_data st' = ltp_data st @ zip ids (map ltp batch))"
proof -
  obtain ok1 st1 where c: "pool_connect st = (ok1, st1)"
    by (cases "pool_connect st") auto
  note c1 = pool_connect_keeps [OF c]
  with assms(2) have np1: "no_pending st1" by (simp add: no_pending_def)
  show ?thesis
  proof (cases ok1)
    case False
    with assms c c1 np1 show ?thesis
      by (auto simp: flushBatch_write_def)
  next
    case True
    obtain r2 m2 st2 where t: "flush_transaction batch m st1 = (r2, m2, st2)"
      by (cases "flush_transaction batch m st1") auto
    note t2 = flush_transaction_effect [OF t np1]
    show ?thesis
    proof (cases r2)
      case (Inr u)
      with assms(1) c True t t2 c1 show ?thesis
        by (auto simp: flushBatch_write_def)
    next
      case (Inl e)
      obtain ok3 st3 where rb: "tx_rollback st2 = (ok3, st3)"
        by (cases "tx_rollback st2") auto
      from t2 have "no_pending st2" by simp
      note r3 = tx_rollback_effect [OF rb this]
      from assms(1) c True t Inl rb r3 t2 c1 show ?thesis
        by (cases ok3) (auto simp: flushBatch_write_def)
    qed
  qed
qed

lemma flushBatch_effect:
  assumes "flushBatch m st = (r, m', st')" and "no_pending st"
  shows "dataBatch m' = [] \<and> \<not> batchTimer m' \<and> no_pending st' \<and>
         (case r of
            Inl e \<Rightarrow> ltp_data st' = ltp_data st
          | Inr u \<Rightarrow> \<exists>ids. length ids = length (dataBatch m) \<and>
                        ltp_data st' = ltp_data st @ zip ids (map ltp (dataBatch m)))"
proof (cases "dataBatch m = []")
  case True
  with assms show ?thesis
    by (cases "batchTimer m") (auto simp: flushBatch_def flushBatch_start_def Let_def)
next
  case False
  let ?m1 = "(if batchTimer m then m\<lparr>batchTimer := False\<rparr> else m)\<lparr>dataBatch := []\<rparr>"
  from False assms(1) have w: "flushBatch_write (dataBatch m) ?m1 st = (r, m', st')"
    by (auto simp: flushBatch_def flushBatch_start_def Let_def split: if_splits)
  from flushBatch_write_effect [OF w assms(2)] show ?thesis
    by (auto split: if_splits)
qed




section \<open>Storage sink: a failed flush and the process\<close>






lemmas store_ops =
  pool_connect_def tx_begin_def tx_insert_ltp_def tx_commit_def tx_rollback_def
  select_topic_def select_all_topics_def insert_topic_def receive_def

lemmas flush_defs =
  flushBatch_write_def flush_transaction_def resolve_all_def batch_calls_def store_ops
  bulk_write_fails_def empty_store_def db_initial_def tick_def Let_def


lemma one_pending_log:
  "map fst (qlog (snd (snd (flushBatch_write
       [tick ''index/NIFTY'' 20012.5, tick ''index/NIFTY'' 20013]
       (db_initial\<lparr>dataBatch := [], batchTimer := False\<rparr>) bulk_write_fails)))) =
     [QConnect, QBegin, QSelectTopic ''index/NIFTY'', QSelectTopic ''index/NIFTY'',
      QInsertTopic ''index/NIFTY'', QInsertTopic ''index/NIFTY'',
      QInsertLtp [(1, 20012.5), (2, 20013)], QRollback] \<and>
   map snd (qlog (snd (snd (flushBatch_write
       [tick ''index/NIFTY'' 20012.5, tick ''index/NIFTY'' 20013]
       (db_initial\<lparr>dataBatch := [], batchTimer := False\<rparr>) bulk_write_fails)))) =
     [False, False, False, False, False, False, True, False]"
  by (simp add: flush_defs)




section \<open>Topic identity: sequential calls\<close>

lemma getTopicId_cached:
  "topicCache m nm = Some i \<Longrightarrow> getTopicId nm a b c m st = (Inr i, m, st)"
  by (simp add: getTopicId_def)

text \<open>After \<^verbatim>\<open>initialize\<close>, every identifier of the table is answered from the cache.\<close>

lemma preload_cache:
  "r \<in> set rows \<Longrightarrow>
     \<exists>i. foldl (\<lambda>c r. c(topic_name r \<mapsto> topic_id r)) c0 rows (topic_name r) = Some i"
  by (induction rows arbitrary: c0 rule: rev_induct) auto

lemma initialize_preloads:
  assumes "initialize m st = (Inr u, m', st')" and "r \<in> set (topics st)"
  shows "\<exists>i. topicCache m' (topic_name r) = Some i \<and>
             getTopicId (topic_name r) a b c m' st' = (Inr i, m', st')"
proof -
  from assms have "\<exists>i. topicCache m' (topic_name r) = Some i"
    by (auto simp: initialize_def select_all_topics_def preload_cache
             split: prod.splits if_splits option.splits dest!: receive_keeps)
  then obtain i where "topicCache m' (topic_name r) = Some i" by auto
  then show ?thesis by (simp add: getTopicId_cached)
qed

lemma getTopicId_caches:
  "getTopicId nm a b c m st = (Inr i, m', st') \<Longrightarrow> topicCache m' nm = Some i"
  by (auto simp: getTopicId_def split: option.splits prod.splits list.splits)

lemma select_topic_rows:
  "select_topic nm st = (r, st') \<Longrightarrow>
     topics st' = topics st \<and>
     (\<forall>rows. r = Some rows \<longrightarrow> rows = filter (\<lambda>x. topic_name x = nm) (topics st))"
  by (auto simp: select_topic_def split: prod.splits if_splits dest: receive_keeps)

lemma insert_topic_rows:
  "insert_topic nm' a b c st = (r, st') \<Longrightarrow>
     rows_named nm st' =
       rows_named nm st + (if r \<noteq> None \<and> nm' = nm then 1 else 0)"
  by (auto simp: insert_topic_def rows_named_def split: prod.splits if_splits
           dest: receive_keeps)

lemma getTopicId_rows:
  assumes "getTopicId nm' a b c m st = (r, m', st')"
  shows "(case topicCache m nm of
            Some i \<Rightarrow> topicCache m' nm = Some i \<and> rows_named nm st' = rows_named nm st
          | None \<Rightarrow> rows_named nm st' = rows_named nm st \<or>
                     (rows_named nm st' = rows_named nm st + 1 \<and> topicCache m' nm \<noteq> None))"
proof (cases "topicCache m nm'")
  case (Some j)
  with assms show ?thesis
    by (auto simp: getTopicId_def split: option.splits)
next
  case None
  obtain r1 st1 where s: "select_topic nm' st = (r1, st1)"
    by (cases "select_topic nm' st") auto
  note s1 = select_topic_rows [OF s]
  then have rn1: "rows_named nm st1 = rows_named nm st"
    by (simp add: rows_named_def)
  show ?thesis
  proof (cases r1)
    case n1: None
    with assms None s rn1 show ?thesis
      by (auto simp: getTopicId_def split: option.splits)
  next
    case (Some rows)
    show ?thesis
    proof (cases rows)
      case (Cons x xs)
      with assms None s Some rn1 show ?thesis
        by (auto simp: getTopicId_def split: option.splits)
    next
      case Nil
      obtain r2 st2 where i: "insert_topic nm' a b c st1 = (r2, st2)"
        by (cases "insert_topic nm' a b c st1") auto
      note i2 = insert_topic_rows [OF i, of nm]
      from assms None s Some Nil i i2 rn1 show ?thesis
        by (cases r2) (auto simp: getTopicId_def split: option.splits)
    qed
  qed
qed

lemma get_all_rows:
  "get_all cs m st = (rs, m', st') \<Longrightarrow>
     (case topicCache m nm of
        Some i \<Rightarrow> topicCache m' nm = Some i \<and> rows_named nm st' = rows_named nm st
      | None \<Rightarrow> rows_named nm st' \<le> rows_named nm st + 1)"
proof (induction cs arbitrary: m st rs)
  case Nil
  then show ?case by (auto split: option.splits)
next
  case (Cons c cs)
  obtain nm' a b k where c: "c = (nm', a, b, k)"
    by (cases c) auto
  obtain r m1 st1 where g: "getTopicId nm' a b k m st = (r, m1, st1)"
    by (cases "getTopicId nm' a b k m st") auto
  obtain rs1 where rest: "get_all cs m1 st1 = (rs1, m', st')"
    using Cons.prems c g by (auto split: prod.splits)
  from Cons.IH [OF rest] getTopicId_rows [OF g, of nm] show ?case
    by (auto split: option.splits)
qed

text \<open>
  C10. In sequential execution, once \<^verbatim>\<open>getTopicId\<close> has returned an id for an
  identifier (from the cache, from the store or from a fresh insert), after any further
  sequential calls every \<^verbatim>\<open>getTopicId\<close> call for that identifier returns the same id
  and leaves the module and the store as they are: no statement reaches the store
  and no row is added. The first return added at most one Topic Record for the
  identifier, and no sequence of sequential calls, from any state, adds more than one.
\<close>

theorem topic_id_stable:
  assumes "fst (getTopicId nm a b c m st) = Inr i"
  shows "\<forall>cs a' b' c'.
           (case get_all cs (fst (snd (getTopicId nm a b c m st)))
                            (snd (snd (getTopicId nm a b c m st))) of
              (rs, m2, st2) \<Rightarrow>
                getTopicId nm a' b' c' m2 st2 = (Inr i, m2, st2) \<and>
                rows_named nm st2 = rows_named nm (snd (snd (getTopicId nm a b c m st)))) \<and>
         rows_named nm (snd (snd (getTopicId nm a b c m st))) \<le> rows_named nm st + 1 \<and>
         (\<forall>cs m0 st0. rows_named nm (snd (snd (get_all cs m0 st0))) \<le> rows_named nm st0 + 1)"
proof -
  obtain m1 st1 where g: "getTopicId nm a b c m st = (Inr i, m1, st1)"
    using assms by (cases "getTopicId nm a b c m st") auto
  note cached = getTopicId_caches [OF g]
  have later: "getTopicId nm a' b' c' m2 st2 = (Inr i, m2, st2) \<and>
               rows_named nm st2 = rows_named nm st1"
    if "get_all cs m1 st1 = (rs, m2, st2)" for cs rs m2 st2 a' b' c'
    using get_all_rows [OF that, of nm] cached by (simp add: getTopicId_cached)
  have first: "rows_named nm st1 \<le> rows_named nm st + 1"
    using getTopicId_rows [OF g, of nm] by (auto split: option.splits)
  have any: "rows_named nm (snd (snd (get_all cs m0 st0))) \<le> rows_named nm st0 + 1"
    for cs m0 st0
    using get_all_rows [of cs m0 st0 _ _ _ nm]
    by (cases "get_all cs m0 st0") (auto split: option.splits)
  from later first any show ?thesis
    by (auto simp: g split: prod.splits)
qed

lemma getTopicId_as_steps:
  "run_schedule [(nm, a, b, c)] [0, 0, 0] ([Pending], m, st) =
     (case getTopicId nm a b c m st of
        (Inr i, m', st') \<Rightarrow> ([Returned i], m', st')
      | (Inl e, m', st') \<Rightarrow> ([Thrown e], m', st'))"
  by (auto simp: getTopicId_def split: option.splits prod.splits list.splits db_error.splits)


lemmas eval_defs =
  getTopicId_def store_ops empty_store_def db_initial_def nifty_call_def tick_def Let_def

theorem topic_id_stable_witness:
  "fst (getTopicId ''index/NIFTY'' None None None
         (fst (snd (get_all [(''index/BANKNIFTY'', None, None, None), nifty_call]
            (fst (snd (getTopicId ''index/NIFTY'' (Some ''NIFTY'') None None db_initial empty_store)))
            (snd (snd (getTopicId ''index/NIFTY'' (Some ''NIFTY'') None None db_initial empty_store))))))
         (snd (snd (get_all [(''index/BANKNIFTY'', None, None, None), nifty_call]
            (fst (snd (getTopicId ''index/NIFTY'' (Some ''NIFTY'') None None db_initial empty_store)))
            (snd (snd (getTopicId ''index/NIFTY'' (Some ''NIFTY'') None None db_initial empty_store)))))))
     = Inr 1"
proof -
  have h: "fst (getTopicId ''index/NIFTY'' (Some ''NIFTY'') None None db_initial empty_store) = Inr 1"
    by (simp add: eval_defs)
  from topic_id_stable [OF h] show ?thesis
    by (simp only: split_beta fst_conv)
qed

section \<open>Topic identity: overlapping calls\<close>

text \<open>Run one after the other, two calls for the same new identifier share one record.\<close>

lemma sequential_first_sight:
  "fst (run_schedule [nifty_call, nifty_call] [0, 0, 0, 1, 1, 1]
          ([Pending, Pending], db_initial, empty_store)) = [Returned 1, Returned 1]"
  by (simp add: eval_defs)

text \<open>
  C9 (the code at the failing input). Two \<^verbatim>\<open>getTopicId\<close> calls for the same unseen
  identifier, one from each of two overlapping flushes, take their steps in turn: both
  miss the cache, both \<^verbatim>\<open>SELECT\<close>s find no row, both \<^verbatim>\<open>INSERT\<close>. On a store with no
  uniqueness constraint on the name the calls return the ids 1 and 2, and the store
  holds two Topic Records for the identifier. One flush whose snapshot has two ticks
  of the same unseen identifier does the same. With a uniqueness constraint the
  second \<^verbatim>\<open>INSERT\<close> is rejected: one record, and the second call throws.
\<close>

theorem concurrent_first_sight_duplicates:
  "fst (run_schedule [nifty_call, nifty_call] [0, 1, 0, 1, 0, 1]
          ([Pending, Pending], db_initial, empty_store)) = [Returned 1, Returned 2] \<and>
   map topic_name (topics (snd (snd (run_schedule [nifty_call, nifty_call] [0, 1, 0, 1, 0, 1]
          ([Pending, Pending], db_initial, empty_store))))) = [''index/NIFTY'', ''index/NIFTY''] \<and>
   rows_named ''index/NIFTY'' (snd (snd (run_schedule [nifty_call, nifty_call] [0, 1, 0, 1, 0, 1]
          ([Pending, Pending], db_initial, empty_store)))) = 2 \<and>
   rows_named ''index/NIFTY'' (snd (snd (flushBatch_write
       [tick ''index/NIFTY'' 20012.5, tick ''index/NIFTY'' 20013] db_initial empty_store))) = 2 \<and>
   fst (run_schedule [nifty_call, nifty_call] [0, 1, 0, 1, 0, 1]
          ([Pending, Pending], db_initial, empty_store\<lparr>unique_topic_name := True\<rparr>))
     = [Returned 1, Thrown DbError] \<and>
   rows_named ''index/NIFTY'' (snd (snd (run_schedule [nifty_call, nifty_call] [0, 1, 0, 1, 0, 1]
          ([Pending, Pending], db_initial, empty_store\<lparr>unique_topic_name := True\<rparr>)))) = 1"
  by (simp add: flushBatch_write_def flush_transaction_def resolve_all_def batch_calls_def
        rows_named_def eval_defs)

section \<open>Subscription manager: what an expansion changes\<close>

lemma expansions_append [simp]: "expansions (xs @ ys) = expansions xs @ expansions ys"
  by (induction xs rule: expansions.induct) simp_all

lemma subscribed_append [simp]: "subscribed (xs @ ys) = subscribed xs @ subscribed ys"
  by (induction xs rule: subscribed.induct) simp_all

lemma fetched_append [simp]: "fetched (xs @ ys) = fetched xs @ fetched ys"
  by (induction xs rule: fetched.induct) simp_all

lemma forwarded_append [simp]: "forwarded (xs @ ys) = forwarded xs @ forwarded ys"
  by (induction xs rule: forwarded.induct) simp_all

lemma failures_append [simp]: "failures (xs @ ys) = failures xs @ failures ys"
  by (induction xs rule: failures.induct) simp_all

lemma flushCalls_append [simp]: "flushCalls (xs @ ys) = flushCalls xs @ flushCalls ys"
  by (induction xs rule: flushCalls.induct) simp_all

lemma written_append [simp]: "written (fs @ gs) = written fs @ written gs"
  by (induction fs rule: written.induct) simp_all

lemma subscribeOption_frame:
  "indexLtpMap (subscribeOption E tok s) = indexLtpMap s \<and>
   atmStrikeMap (subscribeOption E tok s) = atmStrikeMap s \<and>
   isFirstIndexMessage (subscribeOption E tok s) = isFirstIndexMessage s \<and>
   sink (subscribeOption E tok s) = sink s \<and>
   expansions (events (subscribeOption E tok s)) = expansions (events s) \<and>
   fetched (events (subscribeOption E tok s)) = fetched (events s) \<and>
   forwarded (events (subscribeOption E tok s)) = forwarded (events s) \<and>
   failures (events (subscribeOption E tok s)) = failures (events s) \<and>
   activeSubscriptions (subscribeOption E tok s) =
     activeSubscriptions s \<union> (case tok of None \<Rightarrow> {} | Some t \<Rightarrow> {optionTopic E t})"
  by (auto simp: subscribeOption_def emit_def split: option.splits)

lemma subscribeStrike_frame:
  "indexLtpMap (subscribeStrike E i k s) = indexLtpMap s \<and>
   atmStrikeMap (subscribeStrike E i k s) = atmStrikeMap s \<and>
   isFirstIndexMessage (subscribeStrike E i k s) = isFirstIndexMessage s \<and>
   sink (subscribeStrike E i k s) = sink s \<and>
   expansions (events (subscribeStrike E i k s)) = expansions (events s) \<and>
   fetched (events (subscribeStrike E i k s)) = fetched (events s) @ [(i, k, ce), (i, k, pe)] \<and>
   forwarded (events (subscribeStrike E i k s)) = forwarded (events s) \<and>
   failures (events (subscribeStrike E i k s)) = failures (events s) \<and>
   activeSubscriptions (subscribeStrike E i k s) =
     activeSubscriptions s \<union> legTopics E i k ce \<union> legTopics E i k pe"
  by (simp add: subscribeStrike_def getOptionToken_def subscribeOption_frame legTopics_def
        emit_def Un_assoc)

lemma strikes_frame:
  "indexLtpMap (foldl (\<lambda>s k. subscribeStrike E i k s) s ks) = indexLtpMap s \<and>
   atmStrikeMap (foldl (\<lambda>s k. subscribeStrike E i k s) s ks) = atmStrikeMap s \<and>
   isFirstIndexMessage (foldl (\<lambda>s k. subscribeStrike E i k s) s ks) = isFirstIndexMessage s \<and>
   sink (foldl (\<lambda>s k. subscribeStrike E i k s) s ks) = sink s \<and>
   expansions (events (foldl (\<lambda>s k. subscribeStrike E i k s) s ks)) = expansions (events s) \<and>
   fetched (events (foldl (\<lambda>s k. subscribeStrike E i k s) s ks)) =
     fetched (events s) @ concat (map (\<lambda>k. [(i, k, ce), (i, k, pe)]) ks) \<and>
   forwarded (events (foldl (\<lambda>s k. subscribeStrike E i k s) s ks)) = forwarded (events s) \<and>
   failures (events (foldl (\<lambda>s k. subscribeStrike E i k s) s ks)) = failures (events s) \<and>
   activeSubscriptions (foldl (\<lambda>s k. subscribeStrike E i k s) s ks) =
     activeSubscriptions s \<union> (\<Union>k \<in> set ks. legTopics E i k ce \<union> legTopics E i k pe)"
proof (induction ks arbitrary: s)
  case Nil
  show ?case by simp
next
  case (Cons k ks)
  show ?case
    by (simp add: Cons.IH [of "subscribeStrike E i k s"] subscribeStrike_frame Un_assoc)
qed

lemma subscribeToAtmOptions_frame:
  "indexLtpMap (subscribeToAtmOptions E i a s) = indexLtpMap s \<and>
   atmStrikeMap (subscribeToAtmOptions E i a s) = atmStrikeMap s \<and>
   isFirstIndexMessage (subscribeToAtmOptions E i a s) = isFirstIndexMessage s \<and>
   sink (subscribeToAtmOptions E i a s) = sink s \<and>
   expansions (events (subscribeToAtmOptions E i a s)) = expansions (events s) @ [(i, a)] \<and>
   fetched (events (subscribeToAtmOptions E i a s)) =
     fetched (events s) @ concat (map (\<lambda>k. [(i, k, ce), (i, k, pe)]) (strikesAround E i a)) \<and>
   forwarded (events (subscribeToAtmOptions E i a s)) = forwarded (events s) \<and>
   failures (events (subscribeToAtmOptions E i a s)) = failures (events s) \<and>
   activeSubscriptions (subscribeToAtmOptions E i a s) =
     activeSubscriptions s \<union>
     (\<Union>k \<in> set (strikesAround E i a). legTopics E i k ce \<union> legTopics E i k pe)"
  by (simp add: subscribeToAtmOptions_def strikes_frame emit_def)

text \<open>An expansion makes no \<^verbatim>\<open>flushBatch\<close> call.\<close>

lemma subscribeOption_flushCalls:
  "flushCalls (events (subscribeOption E tok s)) = flushCalls (events s)"
  by (simp add: subscribeOption_def emit_def split: option.splits)

lemma subscribeStrike_flushCalls:
  "flushCalls (events (subscribeStrike E i k s)) = flushCalls (events s)"
  by (simp add: subscribeStrike_def getOptionToken_def subscribeOption_flushCalls emit_def)

lemma strikes_flushCalls:
  "flushCalls (events (foldl (\<lambda>s k. subscribeStrike E i k s) s ks)) = flushCalls (events s)"
  by (induction ks arbitrary: s) (simp_all add: subscribeStrike_flushCalls)

lemma subscribeToAtmOptions_flushCalls:
  "flushCalls (events (subscribeToAtmOptions E i a s)) = flushCalls (events s)"
  by (simp add: subscribeToAtmOptions_def strikes_flushCalls emit_def)

section \<open>Router: what a price does\<close>

text \<open>Under the guard of the loop body the index name is defined.\<close>

lemma splitOn_nonempty: "splitOn c t \<noteq> []"
  by (induction t) (auto split: list.splits)

lemma splitOn_two: "c \<in> set t \<Longrightarrow> \<exists>a b rest. splitOn c t = a # b # rest"
proof (induction t)
  case Nil
  then show ?case by simp
next
  case (Cons x xs)
  show ?case
  proof (cases "x = c")
    case True
    with splitOn_nonempty [of c xs] show ?thesis
      by (cases "splitOn c xs") auto
  next
    case False
    with Cons obtain a b rest where "splitOn c xs = a # b # rest" by auto
    with False show ?thesis by simp
  qed
qed

lemma index_name_defined:
  "startsWith tp (p @ ''/'') \<Longrightarrow> \<exists>i. indexNameOf tp = Some i"
proof -
  assume "startsWith tp (p @ ''/'')"
  then have "take (length (p @ ''/'')) tp = p @ ''/''"
    by (simp add: startsWith_def)
  then have "CHR ''/'' \<in> set (take (length (p @ ''/'')) tp)"
    by simp
  then have "CHR ''/'' \<in> set tp"
    by (rule in_set_takeD)
  from splitOn_two [OF this] show ?thesis
    by (auto simp: indexNameOf_def)
qed

lemma trackIndex_frame:
  "sink (trackIndex E i l s) = sink s \<and>
   forwarded (events (trackIndex E i l s)) = forwarded (events s) \<and>
   failures (events (trackIndex E i l s)) = failures (events s) \<and>
   flushCalls (events (trackIndex E i l s)) = flushCalls (events s)"
  by (simp add: trackIndex_def Let_def subscribeToAtmOptions_frame
        subscribeToAtmOptions_flushCalls)

lemma trackIndex_expansions:
  "expansions (events (trackIndex E i l s)) =
     expansions (events s) @
     (if isFirstIndexMessage s i = Some True \<or>
         (indexLtpMap s i \<noteq> None \<and>
          \<bar>getAtmStrike E i l - (case atmStrikeMap s i of None \<Rightarrow> 0 | Some a \<Rightarrow> a)\<bar>
            \<ge> getStrikeDiff E i)
      then [(i, getAtmStrike E i l)] else [])"
  by (simp add: trackIndex_def Let_def subscribeToAtmOptions_frame)

text \<open>
  For an index name whose flag was never initialised (any other topic under the prefix)
  the first price expands nothing, and later prices are compared with 0 as long as no
  strike is recorded.
\<close>

lemma uninitialised_index:
  "isFirstIndexMessage s i = None \<Longrightarrow>
     expansions (events (trackIndex E i l s)) =
       expansions (events s) @
       (if indexLtpMap s i \<noteq> None \<and>
           \<bar>getAtmStrike E i l - (case atmStrikeMap s i of None \<Rightarrow> 0 | Some a \<Rightarrow> a)\<bar>
             \<ge> getStrikeDiff E i
        then [(i, getAtmStrike E i l)] else [])"
  by (simp add: trackIndex_expansions)

lemma trackIndex_inv: "tracking_inv s \<Longrightarrow> tracking_inv (trackIndex E i l s)"
  by (auto simp: tracking_inv_def trackIndex_def Let_def subscribeToAtmOptions_frame)

lemma forward_frame:
  "indexLtpMap (forward E tp l a b c s) = indexLtpMap s \<and>
   atmStrikeMap (forward E tp l a b c s) = atmStrikeMap s \<and>
   isFirstIndexMessage (forward E tp l a b c s) = isFirstIndexMessage s \<and>
   activeSubscriptions (forward E tp l a b c s) = activeSubscriptions s \<and>
   expansions (events (forward E tp l a b c s)) = expansions (events s) \<and>
   failures (events (forward E tp l a b c s)) = failures (events s) \<and>
   forwarded (events (forward E tp l a b c s)) =
     forwarded (events s) @
     [\<lparr>topic = tp, ltp = l, indexName = a, itype = b, strike = c\<rparr>] \<and>
   sink (forward E tp l a b c s) = snd (saveToDatabase (app E) tp l a b c (sink s)) \<and>
   flushCalls (events (forward E tp l a b c s)) =
     flushCalls (events s) @
     (case fst (saveToDatabase (app E) tp l a b c (sink s)) of None \<Rightarrow> [] | Some f \<Rightarrow> [f])"
  by (simp add: forward_def emit_def Let_def split: prod.splits option.splits)

lemma processLtp_forwarded:
  "forwarded (events (processLtp E tp l s)) = forwarded (events s) @ [observation E tp l] \<and>
   failures (events (processLtp E tp l s)) = failures (events s)"
  by (simp add: processLtp_def Let_def forward_frame trackIndex_frame observation_def
           split: option.splits)

text \<open>
  Every price goes through \<^verbatim>\<open>saveToDatabase\<close>: the state of the database module after
  the loop is the one after enqueuing the observations, the \<^verbatim>\<open>flushBatch\<close> calls made
  are the ones enqueuing makes, and every observation is in the pending buffer or in
  the snapshot of one of these calls.
\<close>

lemma processLtp_sink:
  "sink (processLtp E tp l s) = snd (enqueue_all (app E) [observation E tp l] (sink s)) \<and>
   flushCalls (events (processLtp E tp l s)) =
     flushCalls (events s) @ fst (enqueue_all (app E) [observation E tp l] (sink s))"
  by (simp add: processLtp_def Let_def forward_frame trackIndex_frame observation_def
           split: option.splits prod.splits)

lemma prices_sink:
  "sink (foldl (\<lambda>s l. processLtp E tp l s) s ls) =
     snd (enqueue_all (app E) (map (observation E tp) ls) (sink s)) \<and>
   flushCalls (events (foldl (\<lambda>s l. processLtp E tp l s) s ls)) =
     flushCalls (events s) @ fst (enqueue_all (app E) (map (observation E tp) ls) (sink s))"
proof (induction ls arbitrary: s)
  case Nil
  show ?case by simp
next
  case (Cons l ls)
  have split: "enqueue_all (app E) (observation E tp l # map (observation E tp) ls) (sink s) =
      (fst (enqueue_all (app E) [observation E tp l] (sink s)) @
         fst (enqueue_all (app E) (map (observation E tp) ls)
                (snd (enqueue_all (app E) [observation E tp l] (sink s)))),
       snd (enqueue_all (app E) (map (observation E tp) ls)
              (snd (enqueue_all (app E) [observation E tp l] (sink s)))))"
    using enqueue_all_append [of "app E" "[observation E tp l]" "map (observation E tp) ls" "sink s"]
    by (simp only: append_Cons append_Nil split_beta fst_conv snd_conv)
  show ?case
    by (simp only: foldl_Cons list.map Cons.IH [of "processLtp E tp l s"] processLtp_sink split
          fst_conv snd_conv append_assoc)
qed

lemma processMessage_sink:
  "sink (processMessage E tp p s) =
     snd (enqueue_all (app E) (map (observation E tp) (fst (decodeMessage p))) (sink s)) \<and>
   flushCalls (events (processMessage E tp p s)) =
     flushCalls (events s) @
     fst (enqueue_all (app E) (map (observation E tp) (fst (decodeMessage p))) (sink s))"
  by (simp add: processMessage_def prices_sink emit_def split: prod.splits)

lemma saveToDatabase_keeps_all:
  "written (case fst (saveToDatabase cfg tp l a b c m) of None \<Rightarrow> [] | Some f \<Rightarrow> [f]) @
     dataBatch (snd (saveToDatabase cfg tp l a b c m)) =
   dataBatch m @ [\<lparr>topic = tp, ltp = l, indexName = a, itype = b, strike = c\<rparr>]"
  by (simp add: saveToDatabase_def flushBatch_start_def Let_def)

lemma enqueue_all_keeps_all:
  "written (fst (enqueue_all cfg xs m)) @ dataBatch (snd (enqueue_all cfg xs m)) =
     dataBatch m @ xs"
proof (induction xs arbitrary: m)
  case Nil
  show ?case by simp
next
  case (Cons x xs)
  obtain f m1 where sv: "saveToDatabase cfg (topic x) (ltp x) (indexName x) (itype x) (strike x) m
                          = (f, m1)"
    by (cases "saveToDatabase cfg (topic x) (ltp x) (indexName x) (itype x) (strike x) m") auto
  from saveToDatabase_keeps_all [of cfg "topic x" "ltp x" "indexName x" "itype x" "strike x" m] sv
  have one: "written (case f of None \<Rightarrow> [] | Some f \<Rightarrow> [f]) @ dataBatch m1 = dataBatch m @ [x]"
    by simp
  have "written (fst (enqueue_all cfg (x # xs) m)) @ dataBatch (snd (enqueue_all cfg (x # xs) m))
      = written (case f of None \<Rightarrow> [] | Some f \<Rightarrow> [f]) @
        (written (fst (enqueue_all cfg xs m1)) @ dataBatch (snd (enqueue_all cfg xs m1)))"
    by (simp add: sv split: prod.splits)
  also have "\<dots> = written (case f of None \<Rightarrow> [] | Some f \<Rightarrow> [f]) @ (dataBatch m1 @ xs)"
    by (simp only: Cons.IH)
  also have "\<dots> = dataBatch m @ x # xs"
    using one by (metis append_assoc append_Cons append_Nil)
  finally show ?case .
qed

lemma processLtp_inv: "tracking_inv s \<Longrightarrow> tracking_inv (processLtp E tp l s)"
proof -
  assume inv: "tracking_inv s"
  have fw: "tracking_inv (forward E tp l a b c s')" if "tracking_inv s'" for a b c s'
    using that by (simp add: tracking_inv_def forward_frame)
  show ?thesis
    by (auto simp: processLtp_def Let_def inv trackIndex_inv intro!: fw split: option.splits)
qed

lemma prices_forwarded:
  "forwarded (events (foldl (\<lambda>s l. processLtp E tp l s) s ls)) =
     forwarded (events s) @ map (observation E tp) ls \<and>
   failures (events (foldl (\<lambda>s l. processLtp E tp l s) s ls)) = failures (events s)"
  by (induction ls arbitrary: s) (simp_all add: processLtp_forwarded)

lemma prices_inv:
  "tracking_inv s \<Longrightarrow> tracking_inv (foldl (\<lambda>s l. processLtp E tp l s) s ls)"
  by (induction ls arbitrary: s) (simp_all add: processLtp_inv)

lemma processMessage_forwarded:
  "forwarded (events (processMessage E tp p s)) =
     forwarded (events s) @ map (observation E tp) (fst (decodeMessage p)) \<and>
   failures (events (processMessage E tp p s)) =
     failures (events s) @ (if snd (decodeMessage p) then [tp] else [])"
  by (simp add: processMessage_def prices_forwarded emit_def split: prod.splits)

lemma processMessage_inv: "tracking_inv s \<Longrightarrow> tracking_inv (processMessage E tp p s)"
proof -
  assume inv: "tracking_inv s"
  then have "tracking_inv (emit (DecodeFailure tp) s)"
    by (simp add: tracking_inv_def emit_def)
  with inv show ?thesis
    by (simp add: processMessage_def prices_inv split: prod.splits)
qed

lemma initializeFirstMessageTracking_flags:
  "isFirstIndexMessage (foldl (\<lambda>s i. s\<lparr>isFirstIndexMessage := (isFirstIndexMessage s)(i \<mapsto> True)\<rparr>) s is) j
     = (if j \<in> set is then Some True else isFirstIndexMessage s j) \<and>
   indexLtpMap (foldl (\<lambda>s i. s\<lparr>isFirstIndexMessage := (isFirstIndexMessage s)(i \<mapsto> True)\<rparr>) s is)
     = indexLtpMap s \<and>
   atmStrikeMap (foldl (\<lambda>s i. s\<lparr>isFirstIndexMessage := (isFirstIndexMessage s)(i \<mapsto> True)\<rparr>) s is)
     = atmStrikeMap s"
  by (induction "is" arbitrary: s) auto

lemma initializeFirstMessageTracking_inv:
  "tracking_inv s \<Longrightarrow> tracking_inv (initializeFirstMessageTracking E s)"
  by (simp add: tracking_inv_def initializeFirstMessageTracking_def
        initializeFirstMessageTracking_flags)

text \<open>
  C1. Take a state in which every index whose first-message flag has been reset has a
  last price and a recorded ATM strike; the state after start-up is one, and
  \<^verbatim>\<open>processMessage\<close> keeps the property. For a price on the channel of an index whose
  flag is initialised (a configured index), \<^verbatim>\<open>subscribeToAtmOptions\<close> is called,
  once, if and only if the flag is still set or the newly computed ATM strike differs
  from the recorded one by at least the strike difference of the index; otherwise it
  is not called. After start-up the flag of every configured index is set, so its
  first price expands whatever its value.
\<close>

theorem expansion_trigger:
  assumes "tracking_inv s" and "isFirstIndexMessage s i \<noteq> None"
    and "startsWith tp (indexPrefix (app E) @ ''/'')" and "indexNameOf tp = Some i"
  shows "expansions (events (processLtp E tp l s)) =
           expansions (events s) @
           (if isFirstIndexMessage s i = Some True \<or>
               (\<exists>r. atmStrikeMap s i = Some r \<and> \<bar>getAtmStrike E i l - r\<bar> \<ge> getStrikeDiff E i)
            then [(i, getAtmStrike E i l)] else []) \<and>
         tracking_inv (processLtp E tp l s) \<and>
         tracking_inv (initializeFirstMessageTracking E app_initial) \<and>
         (\<forall>j \<in> set (INDICES E).
            isFirstIndexMessage (initializeFirstMessageTracking E app_initial) j = Some True) \<and>
         (\<forall>s' tp' p. tracking_inv s' \<longrightarrow> tracking_inv (processMessage E tp' p s'))"
proof -
  obtain b where flag: "isFirstIndexMessage s i = Some b"
    using assms(2) by auto
  have cond: "(isFirstIndexMessage s i = Some True \<or>
         (indexLtpMap s i \<noteq> None \<and>
          \<bar>getAtmStrike E i l - (case atmStrikeMap s i of None \<Rightarrow> 0 | Some a \<Rightarrow> a)\<bar>
            \<ge> getStrikeDiff E i)) =
        (isFirstIndexMessage s i = Some True \<or>
               (\<exists>r. atmStrikeMap s i = Some r \<and> \<bar>getAtmStrike E i l - r\<bar> \<ge> getStrikeDiff E i))"
  proof (cases b)
    case True
    with flag show ?thesis by simp
  next
    case False
    with flag assms(1) obtain q r where "indexLtpMap s i = Some q" "atmStrikeMap s i = Some r"
      by (auto simp: tracking_inv_def)
    with flag False show ?thesis by simp
  qed
  have "expansions (events (processLtp E tp l s)) = expansions (events (trackIndex E i l s))"
    using assms(3,4) by (simp add: processLtp_def Let_def forward_frame)
  then have first: "expansions (events (processLtp E tp l s)) =
           expansions (events s) @
           (if isFirstIndexMessage s i = Some True \<or>
               (\<exists>r. atmStrikeMap s i = Some r \<and> \<bar>getAtmStrike E i l - r\<bar> \<ge> getStrikeDiff E i)
            then [(i, getAtmStrike E i l)] else [])"
    by (simp only: trackIndex_expansions cond)
  have init: "tracking_inv app_initial"
    by (simp add: tracking_inv_def app_initial_def)
  have flags: "\<forall>j \<in> set (INDICES E).
            isFirstIndexMessage (initializeFirstMessageTracking E app_initial) j = Some True"
    by (simp add: initializeFirstMessageTracking_def initializeFirstMessageTracking_flags)
  from first processLtp_inv [OF assms(1)] initializeFirstMessageTracking_inv [OF init] flags
    processMessage_inv
  show ?thesis by blast
qed

theorem expansion_trigger_witness:
  "expansions (events (processLtp sample_env ''index/NIFTY'' 20010 tracked_state)) = [] \<and>
   expansions (events (processLtp sample_env ''index/NIFTY'' 20030 tracked_state))
     = [(''NIFTY'', 20050)] \<and>
   expansions (events (processLtp sample_env ''index/NIFTY'' 19960 tracked_state))
     = [(''NIFTY'', 19950)] \<and>
   expansions (events (processLtp sample_env ''index/NIFTY'' 7
      (initializeFirstMessageTracking sample_env app_initial))) = [(''NIFTY'', 0)]"
proof -
  have i1: "tracking_inv tracked_state"
    by (simp add: tracking_inv_def tracked_state_def app_initial_def)
  have i2: "isFirstIndexMessage tracked_state ''NIFTY'' \<noteq> None"
    by (simp add: tracked_state_def)
  have i3: "startsWith ''index/NIFTY'' (indexPrefix (app sample_env) @ ''/'')"
    by (simp add: startsWith_def sample_env_def sample_config_def)
  have i4: "indexNameOf ''index/NIFTY'' = Some ''NIFTY''"
    by (simp add: indexNameOf_def)
  have j1: "tracking_inv (initializeFirstMessageTracking sample_env app_initial)"
    by (simp add: tracking_inv_def initializeFirstMessageTracking_def sample_env_def
          app_initial_def)
  have j2: "isFirstIndexMessage (initializeFirstMessageTracking sample_env app_initial) ''NIFTY''
              \<noteq> None"
    by (simp add: initializeFirstMessageTracking_def sample_env_def app_initial_def)
  have ev: "events tracked_state = []" "atmStrikeMap tracked_state ''NIFTY'' = Some 20000"
    "isFirstIndexMessage tracked_state ''NIFTY'' = Some False"
    "events (initializeFirstMessageTracking sample_env app_initial) = []"
    "isFirstIndexMessage (initializeFirstMessageTracking sample_env app_initial) ''NIFTY''
       = Some True"
    by (simp_all add: tracked_state_def app_initial_def initializeFirstMessageTracking_def
          sample_env_def)
  have sel: "getAtmStrike sample_env = sample_getAtmStrike"
    "getStrikeDiff sample_env = sample_getStrikeDiff"
    by (simp_all add: sample_env_def)
  have atm: "sample_getAtmStrike ''NIFTY'' 20010 = 20000"
    "sample_getAtmStrike ''NIFTY'' 20030 = 20050"
    "sample_getAtmStrike ''NIFTY'' 19960 = 19950"
    "sample_getAtmStrike ''NIFTY'' 7 = 0"
    "sample_getStrikeDiff ''NIFTY'' = 50"
    by (simp_all add: sample_getAtmStrike_def sample_getStrikeDiff_def round_def)
  from expansion_trigger [OF i1 i2 i3 i4, of 20010] expansion_trigger [OF i1 i2 i3 i4, of 20030]
    expansion_trigger [OF i1 i2 i3 i4, of 19960] expansion_trigger [OF j1 j2 i3 i4, of 7]
  show ?thesis
    by (simp add: ev sel atm)
qed

section \<open>Router: decoding\<close>

lemma mapLtp_total:
  "\<forall>x \<in> set ds. getProp x ''ltp'' \<noteq> None \<Longrightarrow> \<exists>vs. mapLtp ds = Some vs"
  by (induction ds) auto

lemma mapLtp_numbers:
  "mapLtp ds = Some vs \<Longrightarrow> numbersOf vs = List.map_filter elementPrice ds"
  by (induction ds arbitrary: vs)
     (auto simp: numbersOf_def List.map_filter_simps elementPrice_def split: option.splits)

lemma count_numeric:
  "length (List.map_filter elementPrice ds) = length (filter hasNumericLtp ds)"
  by (induction ds)
     (auto simp: List.map_filter_simps elementPrice_def hasNumericLtp_def split: option.splits)

text \<open>
  The single-record decoder is tried first: whatever it returns decides the prices,
  and the payload is never tried as a batch.
\<close>

lemma single_record_first:
  "asMarketData p = Some d \<Longrightarrow>
     forwarded (events (processMessage E tp p s)) =
       forwarded (events s) @ map (observation E tp) (ltpOf d)"
  by (simp add: processMessage_forwarded decodeMessage_def)

text \<open>
  C3 (as the code has it). When the single-record decoder returns a record whose
  \<^verbatim>\<open>ltp\<close> is a number, \<^verbatim>\<open>processMessage\<close> hands exactly one observation, with that
  price, to the database module. When the single-record decoder throws and the batch
  decoder returns a batch (an array \<^verbatim>\<open>data\<close> of records), it hands over one
  observation per element whose \<^verbatim>\<open>ltp\<close> is a number, in order: as many as there are
  such elements. Neither reports a decode failure. In both cases the observations
  reach the database module through \<^verbatim>\<open>saveToDatabase\<close>: its state afterwards is the
  one after enqueuing them, the \<^verbatim>\<open>flushBatch\<close> calls made are those of enqueuing
  them, and each of them is in the pending buffer or in the snapshot of one of these
  calls.
\<close>

theorem decoded_prices_forwarded:
  "(asMarketData p = Some d \<and> truthy d \<and> getProp d ''ltp'' = Some (JNum l) \<longrightarrow>
      forwarded (events (processMessage E tp p s)) = forwarded (events s) @ [observation E tp l] \<and>
      failures (events (processMessage E tp p s)) = failures (events s) \<and>
      sink (processMessage E tp p s) =
        snd (enqueue_all (app E) [observation E tp l] (sink s)) \<and>
      flushCalls (events (processMessage E tp p s)) =
        flushCalls (events s) @ fst (enqueue_all (app E) [observation E tp l] (sink s)) \<and>
      written (fst (enqueue_all (app E) [observation E tp l] (sink s))) @
        dataBatch (sink (processMessage E tp p s)) =
        dataBatch (sink s) @ [observation E tp l]) \<and>
   (asMarketData p = None \<and> asMarketDataBatch p = Some b \<and> truthy b \<and>
    getProp b ''data'' = Some (JArr ds) \<and> (\<forall>x \<in> set ds. getProp x ''ltp'' \<noteq> None) \<longrightarrow>
      forwarded (events (processMessage E tp p s)) =
        forwarded (events s) @ map (observation E tp) (List.map_filter elementPrice ds) \<and>
      length (List.map_filter elementPrice ds) = length (filter hasNumericLtp ds) \<and>
      failures (events (processMessage E tp p s)) = failures (events s) \<and>
      sink (processMessage E tp p s) =
        snd (enqueue_all (app E)
               (map (observation E tp) (List.map_filter elementPrice ds)) (sink s)) \<and>
      flushCalls (events (processMessage E tp p s)) =
        flushCalls (events s) @
        fst (enqueue_all (app E)
               (map (observation E tp) (List.map_filter elementPrice ds)) (sink s)) \<and>
      written (fst (enqueue_all (app E)
                 (map (observation E tp) (List.map_filter elementPrice ds)) (sink s))) @
        dataBatch (sink (processMessage E tp p s)) =
        dataBatch (sink s) @ map (observation E tp) (List.map_filter elementPrice ds))"
proof (intro conjI impI)
  assume "asMarketData p = Some d \<and> truthy d \<and> getProp d ''ltp'' = Some (JNum l)"
  then have d: "decodeMessage p = ([l], False)"
    by (simp add: decodeMessage_def ltpOf_def)
  then show "forwarded (events (processMessage E tp p s))
               = forwarded (events s) @ [observation E tp l]"
    and "failures (events (processMessage E tp p s)) = failures (events s)"
    by (simp_all add: processMessage_forwarded)
  from d show sk: "sink (processMessage E tp p s) =
        snd (enqueue_all (app E) [observation E tp l] (sink s))"
    and "flushCalls (events (processMessage E tp p s)) =
        flushCalls (events s) @ fst (enqueue_all (app E) [observation E tp l] (sink s))"
    using processMessage_sink [of E tp p s] by simp_all
  show "written (fst (enqueue_all (app E) [observation E tp l] (sink s))) @
        dataBatch (sink (processMessage E tp p s)) =
        dataBatch (sink s) @ [observation E tp l]"
    unfolding sk by (rule enqueue_all_keeps_all)
next
  assume h: "asMarketData p = None \<and> asMarketDataBatch p = Some b \<and> truthy b \<and>
    getProp b ''data'' = Some (JArr ds) \<and> (\<forall>x \<in> set ds. getProp x ''ltp'' \<noteq> None)"
  then obtain vs where vs: "mapLtp ds = Some vs"
    using mapLtp_total by blast
  with h have d: "decodeMessage p = (List.map_filter elementPrice ds, False)"
    by (simp add: decodeMessage_def decodeBatch_def mapLtp_numbers)
  then show "forwarded (events (processMessage E tp p s)) =
        forwarded (events s) @ map (observation E tp) (List.map_filter elementPrice ds)"
    and "failures (events (processMessage E tp p s)) = failures (events s)"
    by (simp_all add: processMessage_forwarded)
  show "length (List.map_filter elementPrice ds) = length (filter hasNumericLtp ds)"
    by (rule count_numeric)
  from d show sk: "sink (processMessage E tp p s) =
        snd (enqueue_all (app E)
               (map (observation E tp) (List.map_filter elementPrice ds)) (sink s))"
    and "flushCalls (events (processMessage E tp p s)) =
        flushCalls (events s) @
        fst (enqueue_all (app E)
               (map (observation E tp) (List.map_filter elementPrice ds)) (sink s))"
    using processMessage_sink [of E tp p s] by simp_all
  show "written (fst (enqueue_all (app E)
                 (map (observation E tp) (List.map_filter elementPrice ds)) (sink s))) @
        dataBatch (sink (processMessage E tp p s)) =
        dataBatch (sink s) @ map (observation E tp) (List.map_filter elementPrice ds)"
    unfolding sk by (rule enqueue_all_keeps_all)
qed

theorem decoded_prices_forwarded_witness:
  "forwarded (events (processMessage sample_env ''index/NIFTY'' single_record app_initial))
     = [observation sample_env ''index/NIFTY'' 20012.5] \<and>
   dataBatch (sink (processMessage sample_env ''index/NIFTY'' single_record app_initial))
     = [observation sample_env ''index/NIFTY'' 20012.5] \<and>
   forwarded (events (processMessage sample_env ''index/NIFTY'' batch_record app_initial))
     = [observation sample_env ''index/NIFTY'' 20012.5, observation sample_env ''index/NIFTY'' 20013] \<and>
   length (filter hasNumericLtp sample_elements) = 2 \<and>
   flushCalls (events (processMessage sample_env ''index/NIFTY'' batch_record app_initial))
     = [Started [observation sample_env ''index/NIFTY'' 20012.5,
                 observation sample_env ''index/NIFTY'' 20013]] \<and>
   dataBatch (sink (processMessage sample_env ''index/NIFTY'' batch_record app_initial)) = []"
proof -
  have a: "asMarketData single_record = Some (JObj [(''ltp'', JNum 20012.5)]) \<and>
           truthy (JObj [(''ltp'', JNum 20012.5)]) \<and>
           getProp (JObj [(''ltp'', JNum 20012.5)]) ''ltp'' = Some (JNum 20012.5)"
    by (simp add: single_record_def)
  have b: "asMarketData batch_record = None \<and>
           asMarketDataBatch batch_record = Some (JObj [(''data'', JArr sample_elements)]) \<and>
           truthy (JObj [(''data'', JArr sample_elements)]) \<and>
           getProp (JObj [(''data'', JArr sample_elements)]) ''data'' = Some (JArr sample_elements) \<and>
           (\<forall>x \<in> set sample_elements. getProp x ''ltp'' \<noteq> None)"
    by (simp add: batch_record_def sample_elements_def)
  have c: "List.map_filter elementPrice sample_elements = [20012.5, 20013]"
    by (simp add: List.map_filter_simps elementPrice_def sample_elements_def)
  have e: "forwarded (events app_initial) = []" "flushCalls (events app_initial) = []"
    "sink app_initial = db_initial" "app sample_env = sample_config"
    by (simp_all add: app_initial_def sample_env_def)
  have q1: "enqueue_all sample_config [observation sample_env ''index/NIFTY'' 20012.5] db_initial
      = ([], db_initial\<lparr>dataBatch := [observation sample_env ''index/NIFTY'' 20012.5],
                       batchTimer := True\<rparr>)"
    using enqueue_below [of db_initial "[observation sample_env ''index/NIFTY'' 20012.5]"
        sample_config]
    by (simp add: db_initial_def sample_config_def)
  have q2: "enqueue_all sample_config
        [observation sample_env ''index/NIFTY'' 20012.5, observation sample_env ''index/NIFTY'' 20013]
        db_initial
      = ([Started [observation sample_env ''index/NIFTY'' 20012.5,
                   observation sample_env ''index/NIFTY'' 20013]],
         db_initial\<lparr>dataBatch := [], batchTimer := False\<rparr>)"
    using enqueue_reach [of "[observation sample_env ''index/NIFTY'' 20012.5,
        observation sample_env ''index/NIFTY'' 20013]" db_initial sample_config]
    by (simp add: db_initial_def sample_config_def)
  note r1 = decoded_prices_forwarded [where p = single_record and E = sample_env
      and tp = "''index/NIFTY''" and s = app_initial
      and d = "JObj [(''ltp'', JNum 20012.5)]" and l = "20012.5",
      THEN conjunct1, THEN mp, OF a]
  have one: "forwarded (events (processMessage sample_env ''index/NIFTY'' single_record app_initial))
     = [observation sample_env ''index/NIFTY'' 20012.5] \<and>
     dataBatch (sink (processMessage sample_env ''index/NIFTY'' single_record app_initial))
     = [observation sample_env ''index/NIFTY'' 20012.5]"
    using r1 unfolding e q1 by simp
  note r2 = decoded_prices_forwarded [where p = batch_record and E = sample_env
      and tp = "''index/NIFTY''" and s = app_initial
      and b = "JObj [(''data'', JArr sample_elements)]" and ds = sample_elements,
      THEN conjunct2, THEN mp, OF b]
  have two: "forwarded (events (processMessage sample_env ''index/NIFTY'' batch_record app_initial))
     = [observation sample_env ''index/NIFTY'' 20012.5, observation sample_env ''index/NIFTY'' 20013]
     \<and> length (filter hasNumericLtp sample_elements) = 2
     \<and> flushCalls (events (processMessage sample_env ''index/NIFTY'' batch_record app_initial))
     = [Started [observation sample_env ''index/NIFTY'' 20012.5,
                 observation sample_env ''index/NIFTY'' 20013]]
     \<and> dataBatch (sink (processMessage sample_env ''index/NIFTY'' batch_record app_initial)) = []"
    using r2 unfolding e c list.map q2 by simp
  from one two show ?thesis by simp
qed

text \<open>
  A payload that decodes as a valid batch and is not handled as one: the single-record
  decoder, tried first, accepts it too. The batch has two elements with a numeric
  price; one observation is handed over, with the price of the record.
\<close>

theorem batch_taken_as_record_counterexample:
  "asMarketDataBatch accepted_by_both = Some (JObj [(''data'', JArr sample_elements)]) \<and>
   truthy (JObj [(''data'', JArr sample_elements)]) \<and>
   getProp (JObj [(''data'', JArr sample_elements)]) ''data'' = Some (JArr sample_elements) \<and>
   length (filter hasNumericLtp sample_elements) = 2 \<and>
   forwarded (events (processMessage sample_env ''index/NIFTY'' accepted_by_both app_initial))
     = [observation sample_env ''index/NIFTY'' 0] \<and>
   length (forwarded (events
      (processMessage sample_env ''index/NIFTY'' accepted_by_both app_initial))) = 1"
  by (simp add: processMessage_forwarded decodeMessage_def ltpOf_def accepted_by_both_def
        sample_elements_def hasNumericLtp_def app_initial_def)

section \<open>Router: messages without a price\<close>





section \<open>Subscription manager: duplicate subscriptions\<close>

text \<open>
  On the option path a topic that is already active is neither subscribed again nor
  added again.
\<close>

lemma subscribeOption_idempotent:
  "optionTopic E t \<in> activeSubscriptions s \<Longrightarrow> subscribeOption E (Some t) s = s"
  by (simp add: subscribeOption_def)

text \<open>
  C6 (the code at the failing input). \<^verbatim>\<open>subscribeToAllIndices\<close> does not look at the
  Active Subscription Set: with \<^verbatim>\<open>index/NIFTY\<close> already active, calling it again
  issues a second \<^verbatim>\<open>client.subscribe("index/NIFTY")\<close>. The set itself is unchanged.
\<close>

theorem resubscribe_all_indices:
  "''index/NIFTY'' \<in> activeSubscriptions (subscribeToAllIndices sample_env app_initial) \<and>
   subscribed (events (subscribeToAllIndices sample_env app_initial)) = [''index/NIFTY''] \<and>
   subscribed (events (subscribeToAllIndices sample_env
        (subscribeToAllIndices sample_env app_initial)))
     = [''index/NIFTY'', ''index/NIFTY''] \<and>
   activeSubscriptions (subscribeToAllIndices sample_env
        (subscribeToAllIndices sample_env app_initial))
     = activeSubscriptions (subscribeToAllIndices sample_env app_initial)"
  by (simp add: subscribeToAllIndices_def sample_env_def app_initial_def emit_def)

section \<open>Subscription manager: legs without a token\<close>

lemma subscribeOption_subscribed:
  "set (subscribed (events (subscribeOption E tok s))) =
     set (subscribed (events s)) \<union>
     ((case tok of None \<Rightarrow> {} | Some t \<Rightarrow> {optionTopic E t}) - activeSubscriptions s)"
  by (auto simp: subscribeOption_def emit_def split: option.splits)

lemma subscribeStrike_subscribed:
  "set (subscribed (events (subscribeStrike E i k s))) =
     set (subscribed (events s)) \<union>
     ((legTopics E i k ce \<union> legTopics E i k pe) - activeSubscriptions s)"
  by (auto simp: subscribeStrike_def getOptionToken_def subscribeOption_subscribed
        subscribeOption_frame legTopics_def emit_def split: option.splits)

lemma strikes_subscribed:
  "set (subscribed (events (foldl (\<lambda>s k. subscribeStrike E i k s) s ks))) =
     set (subscribed (events s)) \<union>
     ((\<Union>k \<in> set ks. legTopics E i k ce \<union> legTopics E i k pe) - activeSubscriptions s)"
proof (induction ks arbitrary: s)
  case Nil
  show ?case by simp
next
  case (Cons k ks)
  show ?case
    by (simp add: Cons.IH [of "subscribeStrike E i k s"] subscribeStrike_subscribed
          subscribeStrike_frame) blast
qed

text \<open>
  C8. A network error, a response that is not \<^verbatim>\<open>ok\<close> and a body that does not parse
  each give no token, and a leg without a token contributes no topic. Whatever the
  answers, an expansion fetches every leg of every strike exactly once, in order (no
  leg is asked twice). Afterwards the active set is the old one together with the
  topics of all legs that did get a token, and the topics subscribed on the transport
  are those of them that were not active before: a leg that failed is left out, and
  no other leg is affected by it.
\<close>

theorem failed_leg_skipped:
  "tokenOf NetworkError = None \<and>
   tokenOf (Response False status body) = None \<and>
   tokenOf (Response True status None) = None \<and>
   (tokenOf (fetch E i (EXPIRY_DATES E i) sd k) = None \<longrightarrow> legTopics E i k sd = {}) \<and>
   fetched (events (subscribeToAtmOptions E i a s)) =
     fetched (events s) @ concat (map (\<lambda>k. [(i, k, ce), (i, k, pe)]) (strikesAround E i a)) \<and>
   activeSubscriptions (subscribeToAtmOptions E i a s) =
     activeSubscriptions s \<union>
     (\<Union>k \<in> set (strikesAround E i a). legTopics E i k ce \<union> legTopics E i k pe) \<and>
   set (subscribed (events (subscribeToAtmOptions E i a s))) =
     set (subscribed (events s)) \<union>
     ((\<Union>k \<in> set (strikesAround E i a). legTopics E i k ce \<union> legTopics E i k pe)
        - activeSubscriptions s)"
proof -
  have "set (subscribed (events (subscribeToAtmOptions E i a s))) =
     set (subscribed (events s)) \<union>
     ((\<Union>k \<in> set (strikesAround E i a). legTopics E i k ce \<union> legTopics E i k pe)
        - activeSubscriptions s)"
    by (simp add: subscribeToAtmOptions_def strikes_subscribed emit_def)
  then show ?thesis
    by (simp add: tokenOf_def legTopics_def subscribeToAtmOptions_frame)
qed

theorem failed_leg_skipped_witness:
  "legTopics sample_env ''NIFTY'' 19950 pe = {} \<and>
   legTopics sample_env ''NIFTY'' 20000 ce = {} \<and>
   legTopics sample_env ''NIFTY'' 20050 pe = {} \<and>
   fetched (events (subscribeToAtmOptions sample_env ''NIFTY'' 20000 app_initial)) =
     [(''NIFTY'', 19950, ce), (''NIFTY'', 19950, pe), (''NIFTY'', 20000, ce),
      (''NIFTY'', 20000, pe), (''NIFTY'', 20050, ce), (''NIFTY'', 20050, pe)] \<and>
   activeSubscriptions (subscribeToAtmOptions sample_env ''NIFTY'' 20000 app_initial) =
     {''index/NSE_FO|C19950'', ''index/NSE_FO|P20000'', ''index/NSE_FO|C20050''} \<and>
   set (subscribed (events (subscribeToAtmOptions sample_env ''NIFTY'' 20000 app_initial))) =
     {''index/NSE_FO|C19950'', ''index/NSE_FO|P20000'', ''index/NSE_FO|C20050''}"
proof -
  have st: "strikesAround sample_env ''NIFTY'' 20000 = [19950, 20000, 20050]"
    by (simp add: strikesAround_def sample_env_def sample_getStrikeDiff_def upto_rec1)
  have f: "tokenOf (fetch sample_env ''NIFTY'' (EXPIRY_DATES sample_env ''NIFTY'') pe 19950) = None"
    "tokenOf (fetch sample_env ''NIFTY'' (EXPIRY_DATES sample_env ''NIFTY'') ce 20000) = None"
    "tokenOf (fetch sample_env ''NIFTY'' (EXPIRY_DATES sample_env ''NIFTY'') pe 20050) = None"
    by (simp_all add: sample_env_def sample_fetch_def tokenOf_def)
  have l: "legTopics sample_env ''NIFTY'' 19950 ce = {''index/NSE_FO|C19950''}"
    "legTopics sample_env ''NIFTY'' 20000 pe = {''index/NSE_FO|P20000''}"
    "legTopics sample_env ''NIFTY'' 20050 ce = {''index/NSE_FO|C20050''}"
    by (simp_all add: legTopics_def sample_env_def sample_fetch_def tokenOf_def optionTopic_def
          sample_toStr_def)
  have e: "events app_initial = []" "activeSubscriptions app_initial = {}"
    by (simp_all add: app_initial_def)
  note t1 = failed_leg_skipped [where E = sample_env and i = "''NIFTY''" and sd = pe
      and k = 19950 and a = 20000 and s = app_initial]
  note t2 = failed_leg_skipped [where E = sample_env and i = "''NIFTY''" and sd = ce
      and k = 20000 and a = 20000 and s = app_initial]
  note t3 = failed_leg_skipped [where E = sample_env and i = "''NIFTY''" and sd = pe
      and k = 20050 and a = 20000 and s = app_initial]
  have legs: "legTopics sample_env ''NIFTY'' 19950 pe = {}"
    "legTopics sample_env ''NIFTY'' 20000 ce = {}"
    "legTopics sample_env ''NIFTY'' 20050 pe = {}"
    using t1 [THEN conjunct2, THEN conjunct2, THEN conjunct2, THEN conjunct1]
      t2 [THEN conjunct2, THEN conjunct2, THEN conjunct2, THEN conjunct1]
      t3 [THEN conjunct2, THEN conjunct2, THEN conjunct2, THEN conjunct1] f
    by blast+
  note rest = t1 [THEN conjunct2, THEN conjunct2, THEN conjunct2, THEN conjunct2]
  show ?thesis
    using rest unfolding st by (simp add: legs l e insert_commute)
qed

end
